theory Spec2Isabelle
  imports Main
begin

text \<open>
  A model of \<^verbatim>\<open>translate.py\<close>, the script that fills the empty \<^verbatim>\<open>new ""\<close> lines of
  Ren'Py translation files with translations of the \<^verbatim>\<open>old "..."\<close> lines before them.
  Modelled are \<^verbatim>\<open>translate_text\<close>, \<^verbatim>\<open>process_rpy_file\<close> and the language code of
  \<^verbatim>\<open>main\<close>, together with what they use of Python: \<^verbatim>\<open>str.strip\<close>, \<^verbatim>\<open>str.splitlines\<close>,
  \<^verbatim>\<open>str.join\<close>, and \<^verbatim>\<open>re.match\<close> and \<^verbatim>\<open>re.sub\<close> for the patterns of the script. The
  remote service, the credential and the case mappings of Unicode are parameters.
  Not modelled: the walk over the directories in \<^verbatim>\<open>main\<close>, the parsing of the command
  line, and what is printed.
\<close>

section \<open>Python strings\<close>

text \<open>
  A Python \<^verbatim>\<open>str\<close> is a sequence of Unicode code points, so a string is a list of
  code points here (a \<open>char\<close> of HOL is a byte and could not hold them). \<open>str\<close> embeds an
  ASCII literal.
\<close>

type_synonym pystr = "nat list"

definition str :: "string \<Rightarrow> pystr" where
  "str s = map of_char s"

abbreviation LF :: nat where "LF \<equiv> 10"
abbreviation CR :: nat where "CR \<equiv> 13"
abbreviation DQUOTE :: nat where "DQUOTE \<equiv> 34"
abbreviation BACKSLASH :: nat where "BACKSLASH \<equiv> 92"

text \<open>
  \<^verbatim>\<open>str.isspace\<close> on one character, which is also the class \<^verbatim>\<open>\s\<close> of a \<^verbatim>\<open>str\<close>
  pattern: U+0009..U+000D, U+001C..U+0020, U+0085, U+00A0, U+1680, U+2000..U+200A,
  U+2028, U+2029, U+202F, U+205F, U+3000.
\<close>

definition isspace :: "nat \<Rightarrow> bool" where
  "isspace c \<longleftrightarrow>
     (9 \<le> c \<and> c \<le> 13) \<or> (28 \<le> c \<and> c \<le> 32) \<or> c = 133 \<or> c = 160 \<or> c = 5760 \<or>
     (8192 \<le> c \<and> c \<le> 8202) \<or> c = 8232 \<or> c = 8233 \<or> c = 8239 \<or> c = 8287 \<or> c = 12288"

text \<open>\<^verbatim>\<open>s.strip()\<close>: leading and trailing whitespace removed.\<close>

definition strip :: "pystr \<Rightarrow> pystr" where
  "strip s = rev (dropWhile isspace (rev (dropWhile isspace s)))"

text \<open>
  \<^verbatim>\<open>s.splitlines()\<close>: the line boundaries are LF, VT, FF, CR, CR LF, U+001C, U+001D,
  U+001E, U+0085, U+2028 and U+2029; the boundaries are dropped, and a boundary that
  ends the string opens no further line. \<open>cur\<close> is the line being read.
\<close>

definition is_linebreak :: "nat \<Rightarrow> bool" where
  "is_linebreak c \<longleftrightarrow>
     (10 \<le> c \<and> c \<le> 13) \<or> (28 \<le> c \<and> c \<le> 30) \<or> c = 133 \<or> c = 8232 \<or> c = 8233"

fun splitlines_from :: "pystr \<Rightarrow> pystr \<Rightarrow> pystr list" where
  "splitlines_from cur [] = (if cur = [] then [] else [cur])"
| "splitlines_from cur [c] = (if is_linebreak c then [cur] else [cur @ [c]])"
| "splitlines_from cur (c # d # s) =
     (if c = CR \<and> d = LF then cur # splitlines_from [] s
      else if is_linebreak c then cur # splitlines_from [] (d # s)
      else splitlines_from (cur @ [c]) (d # s))"

definition splitlines :: "pystr \<Rightarrow> pystr list" where
  "splitlines s = splitlines_from [] s"

text \<open>\<^verbatim>\<open>"\n".join(lines)\<close>.\<close>

fun join_lines :: "pystr list \<Rightarrow> pystr" where
  "join_lines [] = []"
| "join_lines [l] = l"
| "join_lines (l # m # ls) = l @ LF # join_lines (m # ls)"

section \<open>The regular expressions of the script\<close>

text \<open>
  The three patterns of \<^verbatim>\<open>process_rpy_file\<close> are sequences of single characters,
  \<^verbatim>\<open>\s\<close> and \<^verbatim>\<open>.\<close>, each taken once or under a greedy \<^verbatim>\<open>*\<close> or \<^verbatim>\<open>+\<close>, with at most one
  group, \<^verbatim>\<open>(.*)\<close>. \<open>rx_match\<close> is the backtracking matcher of \<^verbatim>\<open>re\<close> on such a sequence,
  anchored where the string starts: a greedy repetition first takes one more character
  and gives it back only when the rest of the pattern fails. It returns the text of the
  group and what is left of the string after the match. \<^verbatim>\<open>.\<close> is every character but
  LF (no flag is set).
\<close>

datatype atom = Lit nat | Space | Dot

fun accepts :: "atom \<Rightarrow> nat \<Rightarrow> bool" where
  "accepts (Lit a) c = (c = a)"
| "accepts Space c = isspace c"
| "accepts Dot c = (c \<noteq> LF)"

datatype item = One atom | Star atom | Plus atom | Group_Star atom

fun rx_match :: "item list \<Rightarrow> pystr \<Rightarrow> (pystr \<times> pystr) option" where
  "rx_match [] s = Some ([], s)"
| "rx_match (One a # r) [] = None"
| "rx_match (One a # r) (c # s) = (if accepts a c then rx_match r s else None)"
| "rx_match (Plus a # r) [] = None"
| "rx_match (Plus a # r) (c # s) = (if accepts a c then rx_match (Star a # r) s else None)"
| "rx_match (Star a # r) [] = rx_match r []"
| "rx_match (Star a # r) (c # s) =
     (if accepts a c
      then (case rx_match (Star a # r) s of
              Some m \<Rightarrow> Some m
            | None \<Rightarrow> rx_match r (c # s))
      else rx_match r (c # s))"
| "rx_match (Group_Star a # r) [] = rx_match r []"
| "rx_match (Group_Star a # r) (c # s) =
     (if accepts a c
      then (case rx_match (Group_Star a # r) s of
              Some (g, t) \<Rightarrow> Some (c # g, t)
            | None \<Rightarrow> rx_match r (c # s))
      else rx_match r (c # s))"

definition lits :: "string \<Rightarrow> item list" where
  "lits s = map (\<lambda>c. One (Lit (of_char c))) s"

text \<open>\<^verbatim>\<open>old_pattern = re.compile(r'^\s*old\s+"(.*)"')\<close> and its twin for \<^verbatim>\<open>new\<close>.\<close>

definition old_pattern :: "item list" where
  "old_pattern = Star Space # lits ''old'' @ [Plus Space, One (Lit DQUOTE), Group_Star Dot, One (Lit DQUOTE)]"

definition new_pattern :: "item list" where
  "new_pattern = Star Space # lits ''new'' @ [Plus Space, One (Lit DQUOTE), Group_Star Dot, One (Lit DQUOTE)]"

text \<open>\<^verbatim>\<open>pattern.match(line)\<close>, read through \<^verbatim>\<open>group(1)\<close>: \<open>None\<close> when there is no match.\<close>

definition re_match :: "item list \<Rightarrow> pystr \<Rightarrow> pystr option" where
  "re_match p s = map_option fst (rx_match p s)"

section \<open>Replacement templates and \<^verbatim>\<open>re.sub\<close>\<close>

text \<open>
  The exceptions that can leave the functions modelled here. \<open>ReError\<close> is \<^verbatim>\<open>re.error\<close>
  (and the \<^verbatim>\<open>IndexError\<close> of an unknown group name) raised while \<^verbatim>\<open>re.sub\<close> reads its
  replacement; \<open>KeyError\<close> and \<open>IndexError\<close> come from indexing the service's answer.
\<close>

datatype error = ValueError | KeyError | IndexError | ReError | FileNotFoundError

text \<open>
  \<^verbatim>\<open>re.sub\<close> reads a replacement string as a template before it looks for a match: a
  backslash starts an escape. For a pattern with no group (as the one of the script) the
  template is a list of characters and of references to group 0, the whole match.
  The cases follow \<^verbatim>\<open>parse_template\<close> of CPython (3.12, where a group number is ASCII
  digits only):
  \<^item> a backslash that ends the string is an error;
  \<^item> \<^verbatim>\<open>\g<0>\<close> (any number of zeros) is the whole match; every other \<^verbatim>\<open>\g\<close> is an error,
    the pattern having no group;
  \<^item> \<^verbatim>\<open>\0\<close> with up to two more octal digits is that character;
  \<^item> another digit starts an octal escape when three octal digits follow each other
    (an error above 0o377), and else a reference to a group that does not exist;
  \<^item> \<^verbatim>\<open>\a \b \f \n \r \t \v \\\<close> are the control characters and the backslash;
  \<^item> any other ASCII letter is an error; any other character stays with its backslash.
\<close>

datatype part = Literal nat | Group0

definition is_digit :: "nat \<Rightarrow> bool" where
  "is_digit c \<longleftrightarrow> 48 \<le> c \<and> c \<le> 57"

definition is_octdigit :: "nat \<Rightarrow> bool" where
  "is_octdigit c \<longleftrightarrow> 48 \<le> c \<and> c \<le> 55"

definition is_ascii_letter :: "nat \<Rightarrow> bool" where
  "is_ascii_letter c \<longleftrightarrow> (65 \<le> c \<and> c \<le> 90) \<or> (97 \<le> c \<and> c \<le> 122)"

definition ESCAPES :: "nat \<Rightarrow> nat option" where
  "ESCAPES c =
     (if c = 97 then Some 7 else if c = 98 then Some 8 else if c = 102 then Some 12
      else if c = 110 then Some 10 else if c = 114 then Some 13 else if c = 116 then Some 9
      else if c = 118 then Some 11 else if c = 92 then Some 92 else None)"

definition cons_part :: "part list \<Rightarrow> error + part list \<Rightarrow> error + part list" where
  "cons_part ps r = (case r of Inl e \<Rightarrow> Inl e | Inr qs \<Rightarrow> Inr (ps @ qs))"

function parse_template :: "pystr \<Rightarrow> error + part list" where
  "parse_template [] = Inr []"
| "parse_template (c # s) =
     (if c \<noteq> BACKSLASH then cons_part [Literal c] (parse_template s)
      else (case s of
          [] \<Rightarrow> Inl ReError
        | d # t \<Rightarrow>
            if d = 103 then
              (case t of
                 [] \<Rightarrow> Inl ReError
               | lt # u \<Rightarrow>
                   if lt \<noteq> 60 \<or> 62 \<notin> set u \<or> takeWhile (\<lambda>x. x \<noteq> 62) u = []
                      \<or> \<not> list_all (\<lambda>x. x = 48) (takeWhile (\<lambda>x. x \<noteq> 62) u)
                   then Inl ReError
                   else cons_part [Group0] (parse_template (tl (dropWhile (\<lambda>x. x \<noteq> 62) u))))
            else if d = 48 then
              (case t of
                 [] \<Rightarrow> Inr [Literal 0]
               | e # u \<Rightarrow>
                   if is_octdigit e then
                     (case u of
                        [] \<Rightarrow> Inr [Literal (e - 48)]
                      | f # v \<Rightarrow>
                          if is_octdigit f
                          then cons_part [Literal ((8 * (e - 48) + (f - 48)) mod 256)] (parse_template v)
                          else cons_part [Literal (e - 48)] (parse_template u))
                   else cons_part [Literal 0] (parse_template t))
            else if is_digit d then
              (case t of
                 e # f # v \<Rightarrow>
                   if is_octdigit d \<and> is_octdigit e \<and> is_octdigit f
                   then (if 64 * (d - 48) + 8 * (e - 48) + (f - 48) > 255 then Inl ReError
                         else cons_part [Literal (64 * (d - 48) + 8 * (e - 48) + (f - 48))]
                                (parse_template v))
                   else Inl ReError
               | _ \<Rightarrow> Inl ReError)
            else
              (case ESCAPES d of
                 Some x \<Rightarrow> cons_part [Literal x] (parse_template t)
               | None \<Rightarrow>
                   if is_ascii_letter d then Inl ReError
                   else cons_part [Literal BACKSLASH, Literal d] (parse_template t))))"
  by pat_completeness auto
termination
proof (relation "measure length")
  fix u :: pystr
  have "length (tl (dropWhile (\<lambda>x. x \<noteq> 62) u)) \<le> length (dropWhile (\<lambda>x. x \<noteq> 62) u)"
    by simp
  also have "\<dots> \<le> length u"
    by (rule length_dropWhile_le)
  finally have "length (tl (dropWhile (\<lambda>x. x \<noteq> 62) u)) \<le> length u" .
  then show "\<And>c s d t lt. s = d # t \<Longrightarrow> t = lt # u \<Longrightarrow>
      (tl (dropWhile (\<lambda>x. x \<noteq> 62) u), c # s) \<in> measure length"
    by simp
qed auto

text \<open>The replacement for one match \<open>g0\<close>.\<close>

fun expand_template :: "part list \<Rightarrow> pystr \<Rightarrow> pystr" where
  "expand_template [] g0 = []"
| "expand_template (Literal c # ps) g0 = c # expand_template ps g0"
| "expand_template (Group0 # ps) g0 = g0 @ expand_template ps g0"

text \<open>
  \<^verbatim>\<open>re.sub\<close> replaces every match, searching from left to right and going on after
  each match: at a position where the pattern matches, the match is replaced and the
  search goes on after it; elsewhere the character is copied. (An empty match is replaced
  too and the next character copied; the pattern of the script has none.)
\<close>

fun sub_all :: "item list \<Rightarrow> part list \<Rightarrow> pystr \<Rightarrow> pystr" where
  "sub_all p parts s =
     (case rx_match p s of
        Some (g, t) \<Rightarrow>
          if length t < length s
          then expand_template parts (take (length s - length t) s) @ sub_all p parts t
          else (case s of
                  [] \<Rightarrow> expand_template parts []
                | c # s' \<Rightarrow> expand_template parts [] @ c # sub_all p parts s')
      | None \<Rightarrow> (case s of [] \<Rightarrow> [] | c # s' \<Rightarrow> c # sub_all p parts s'))"

declare sub_all.simps [simp del]

definition re_sub :: "item list \<Rightarrow> pystr \<Rightarrow> pystr \<Rightarrow> error + pystr" where
  "re_sub p repl s =
     (case parse_template repl of
        Inl e \<Rightarrow> Inl e
      | Inr parts \<Rightarrow> Inr (sub_all p parts s))"

text \<open>The pattern \<^verbatim>\<open>r'new\s+".*"'\<close> of the substitution.\<close>

definition sub_pattern :: "item list" where
  "sub_pattern = lits ''new'' @ [Plus Space, One (Lit DQUOTE), Star Dot, One (Lit DQUOTE)]"

section \<open>The translation client\<close>

text \<open>
  What the script takes from outside the repository is gathered in \<open>env\<close>: the
  credential \<^verbatim>\<open>DEEPL_API_KEY\<close> of the environment (\<open>None\<close> when unset), the remote
  service, and Python's case mappings \<^verbatim>\<open>str.lower\<close> and \<^verbatim>\<open>str.upper\<close> (Unicode tables
  that are no part of the script). The service is any function from the number of
  requests sent before and the request to a \<open>reply\<close>, so it may answer the same request
  differently each time.

  \<open>reply\<close> is what lines 53 to 57 of \<^verbatim>\<open>translate_text\<close> see: \<open>RequestException\<close> when
  \<^verbatim>\<open>requests.post\<close>, \<^verbatim>\<open>raise_for_status\<close> or \<^verbatim>\<open>response.json\<close> raises one (a connection
  error, a timeout, an HTTP error status, a body that is not JSON); \<open>Data None\<close> for a
  JSON object with no \<^verbatim>\<open>"translations"\<close>; \<open>Data (Some ts)\<close> for one whose translations
  have the texts \<open>ts\<close>.

  What the run changes is the \<open>world\<close>: the requests sent so far, in order, and the
  text files by path (a file holds the text \<^verbatim>\<open>read_text\<close> returns and \<^verbatim>\<open>write_text\<close> is
  given).
\<close>

record request =
  p_auth_key :: pystr
  p_text :: pystr
  p_target_lang :: pystr
  p_formality :: "pystr option"

datatype reply = RequestException | Data "pystr list option"

record env =
  DEEPL_API_KEY :: "pystr option"
  requests_post :: "nat \<Rightarrow> request \<Rightarrow> reply"
  str_lower :: "pystr \<Rightarrow> pystr"
  str_upper :: "pystr \<Rightarrow> pystr"

record world =
  requests :: "request list"
  files :: "pystr \<rightharpoonup> pystr"

text \<open>
  \<^verbatim>\<open>translate_text(text, target_lang, formality)\<close>. An unset or empty key raises
  \<^verbatim>\<open>ValueError\<close> before anything is sent. A \<open>RequestException\<close> is caught and the text
  returned as it came; the message printed then is not modelled.
\<close>

definition translate_text ::
    "env \<Rightarrow> world \<Rightarrow> pystr \<Rightarrow> pystr \<Rightarrow> pystr \<Rightarrow> world \<times> (error + pystr)" where
  "translate_text E w txt target_lang formality =
     (case DEEPL_API_KEY E of
        None \<Rightarrow> (w, Inl ValueError)
      | Some key \<Rightarrow>
          if key = [] then (w, Inl ValueError)
          else
            let params = \<lparr>p_auth_key = key, p_text = txt, p_target_lang = target_lang,
                   p_formality =
                     (if str_lower E formality = str ''more'' \<or> str_lower E formality = str ''less''
                      then Some (str_lower E formality) else None)\<rparr>;
                w' = w\<lparr>requests := requests w @ [params]\<rparr>
            in (case requests_post E (length (requests w)) params of
                  RequestException \<Rightarrow> (w', Inr txt)
                | Data None \<Rightarrow> (w', Inl KeyError)
                | Data (Some []) \<Rightarrow> (w', Inl IndexError)
                | Data (Some (t # ts)) \<Rightarrow> (w', Inr t)))"

section \<open>The file transformer\<close>

text \<open>
  The state of the loop of \<^verbatim>\<open>process_rpy_file\<close>: the lines appended so far and the
  pending source text. \<open>scan_line\<close> is one iteration of the loop, \<open>scan_lines\<close> the loop;
  an exception ends the loop and the function, so nothing is written then.
\<close>

record scan =
  output_lines :: "pystr list"
  buffer_old_text :: "pystr option"

definition scan_line ::
    "env \<Rightarrow> pystr \<Rightarrow> pystr \<Rightarrow> world \<Rightarrow> scan \<Rightarrow> pystr \<Rightarrow> world \<times> (error + scan)" where
  "scan_line E target_lang formality w st line =
     (case re_match old_pattern line of
        Some old_text \<Rightarrow>
          (w, Inr \<lparr>output_lines = output_lines st @ [line], buffer_old_text = Some old_text\<rparr>)
      | None \<Rightarrow>
          (case re_match new_pattern line of
             None \<Rightarrow> (w, Inr (st\<lparr>output_lines := output_lines st @ [line]\<rparr>))
           | Some current_new_text \<Rightarrow>
               (case buffer_old_text st of
                  None \<Rightarrow> (w, Inr (st\<lparr>output_lines := output_lines st @ [line]\<rparr>))
                | Some old_text \<Rightarrow>
                    if strip current_new_text = [] then
                      (case translate_text E w old_text target_lang formality of
                         (w', Inl e) \<Rightarrow> (w', Inl e)
                       | (w', Inr translation) \<Rightarrow>
                           (case re_sub sub_pattern
                                   (str ''new \"'' @ translation @ str ''\"'') line of
                              Inl e \<Rightarrow> (w', Inl e)
                            | Inr updated_line \<Rightarrow>
                                (w', Inr \<lparr>output_lines = output_lines st @ [updated_line],
                                          buffer_old_text = None\<rparr>)))
                    else (w, Inr \<lparr>output_lines = output_lines st @ [line],
                                   buffer_old_text = None\<rparr>))))"

fun scan_lines ::
    "env \<Rightarrow> pystr \<Rightarrow> pystr \<Rightarrow> world \<Rightarrow> scan \<Rightarrow> pystr list \<Rightarrow> world \<times> (error + scan)" where
  "scan_lines E target_lang formality w st [] = (w, Inr st)"
| "scan_lines E target_lang formality w st (line # rest) =
     (case scan_line E target_lang formality w st line of
        (w', Inl e) \<Rightarrow> (w', Inl e)
      | (w', Inr st') \<Rightarrow> scan_lines E target_lang formality w' st' rest)"

text \<open>
  \<^verbatim>\<open>process_rpy_file(rpy_path, target_lang, formality)\<close>: the file is read, split into
  lines, scanned, and the lines appended are written back joined by LF.
\<close>

definition process_rpy_file ::
    "env \<Rightarrow> world \<Rightarrow> pystr \<Rightarrow> pystr \<Rightarrow> pystr \<Rightarrow> world \<times> (error + unit)" where
  "process_rpy_file E w rpy_path target_lang formality =
     (case files w rpy_path of
        None \<Rightarrow> (w, Inl FileNotFoundError)
      | Some content \<Rightarrow>
          (case scan_lines E target_lang formality w
                  \<lparr>output_lines = [], buffer_old_text = None\<rparr> (splitlines content) of
             (w', Inl e) \<Rightarrow> (w', Inl e)
           | (w', Inr st) \<Rightarrow>
               (w'\<lparr>files := (files w')(rpy_path \<mapsto> join_lines (output_lines st))\<rparr>, Inr ())))"

section \<open>The target language\<close>

definition LANGUAGE_MAP :: "pystr \<rightharpoonup> pystr" where
  "LANGUAGE_MAP = map_of
     [(str ''german'', str ''DE''), (str ''spanish'', str ''ES''), (str ''english'', str ''EN''),
      (str ''french'', str ''FR''), (str ''italian'', str ''IT''), (str ''polish'', str ''PL'')]"

text \<open>
  Lines 136 and 137 of \<^verbatim>\<open>main\<close>: \<^verbatim>\<open>user_lang = args.language.lower()\<close> and
  \<^verbatim>\<open>target_lang = LANGUAGE_MAP.get(user_lang, user_lang.upper())\<close>.
\<close>

definition main_target_lang :: "env \<Rightarrow> pystr \<Rightarrow> pystr" where
  "main_target_lang E language =
     (let user_lang = str_lower E language
      in case LANGUAGE_MAP user_lang of
           Some code \<Rightarrow> code
         | None \<Rightarrow> str_upper E user_lang)"

text \<open>
  The case mappings of Python on the characters the examples below use: the ASCII
  letters, and KELVIN SIGN (U+212A), an upper-case letter whose lower case is the ASCII
  \<^verbatim>\<open>k\<close>. On a string of these characters and of characters without case they are
  \<^verbatim>\<open>str.lower\<close> and \<^verbatim>\<open>str.upper\<close>.
\<close>

definition lower_char :: "nat \<Rightarrow> nat" where
  "lower_char c = (if 65 \<le> c \<and> c \<le> 90 then c + 32 else if c = 8490 then 107 else c)"

definition upper_char :: "nat \<Rightarrow> nat" where
  "upper_char c = (if 97 \<le> c \<and> c \<le> 122 then c - 32 else c)"

text \<open>
  An environment for the examples: a key, the case mappings above, and a service that
  gives every request the reply \<open>r\<close>.
\<close>

definition test_env :: "pystr option \<Rightarrow> reply \<Rightarrow> env" where
  "test_env key r =
     \<lparr>DEEPL_API_KEY = key, requests_post = (\<lambda>n q. r),
      str_lower = map lower_char, str_upper = map upper_char\<rparr>"

definition test_world :: "pystr \<Rightarrow> world" where
  "test_world content = \<lparr>requests = [], files = [str ''script.rpy'' \<mapsto> content]\<rparr>"

section \<open>Evaluation and first facts\<close>

text \<open>
  The definitions to unfold to evaluate, at a concrete input, a call of the client, an
  iteration of the scan, and the processing of a file.
\<close>

lemmas call_eval =
  str_def translate_text_def test_env_def test_world_def lower_char_def upper_char_def Let_def

lemmas scan_eval =
  call_eval lits_def isspace_def re_match_def old_pattern_def new_pattern_def strip_def
  sub_pattern_def re_sub_def cons_part_def ESCAPES_def is_digit_def is_octdigit_def
  is_ascii_letter_def sub_all.simps scan_line_def

lemmas file_eval =
  scan_eval is_linebreak_def splitlines_def process_rpy_file_def

text \<open>
  A greedy \<^verbatim>\<open>x*\<close> in front of a character that \<open>x\<close> does not accept never gives a
  character back: the match goes on where the run of \<open>x\<close> ends.
\<close>

lemma rx_match_Star_One:
  assumes "\<And>c. accepts a c \<Longrightarrow> \<not> accepts b c"
  shows "rx_match (Star a # One b # r) s = rx_match (One b # r) (dropWhile (accepts a) s)"
proof (induction s)
  case Nil
  show ?case by simp
next
  case (Cons c s)
  show ?case
  proof (cases "accepts a c")
    case True
    then have "rx_match (One b # r) (c # s) = None"
      using assms by simp
    with True Cons show ?thesis
      by (simp split: option.split)
  next
    case False
    then show ?thesis by simp
  qed
qed

lemma old_pattern_head:
  "rx_match old_pattern s = rx_match (tl old_pattern) (dropWhile isspace s)"
proof -
  have "rx_match (Star Space # One (Lit 111) # r) s
          = rx_match (One (Lit 111) # r) (dropWhile (accepts Space) s)" for r
    by (rule rx_match_Star_One) (auto simp: isspace_def)
  moreover have "accepts Space = isspace"
    by (rule ext) simp
  ultimately show ?thesis
    by (simp add: old_pattern_def lits_def)
qed

lemma new_pattern_head:
  "rx_match new_pattern s = rx_match (tl new_pattern) (dropWhile isspace s)"
proof -
  have "rx_match (Star Space # One (Lit 110) # r) s
          = rx_match (One (Lit 110) # r) (dropWhile (accepts Space) s)" for r
    by (rule rx_match_Star_One) (auto simp: isspace_def)
  moreover have "accepts Space = isspace"
    by (rule ext) simp
  ultimately show ?thesis
    by (simp add: new_pattern_def lits_def)
qed

text \<open>No line is both a source and a target declaration.\<close>

lemma new_not_old:
  assumes "re_match new_pattern line = Some cur"
  shows "re_match old_pattern line = None"
proof (cases "dropWhile isspace line")
  case Nil
  show ?thesis
    unfolding re_match_def old_pattern_head Nil
    by (simp add: old_pattern_def lits_def)
next
  case (Cons c s)
  have "c = 110"
  proof (rule ccontr)
    assume "c \<noteq> 110"
    then have "rx_match new_pattern line = None"
      unfolding new_pattern_head Cons
      by (simp add: new_pattern_def lits_def)
    with assms show False
      by (simp add: re_match_def)
  qed
  then show ?thesis
    unfolding re_match_def old_pattern_head Cons
    by (simp add: old_pattern_def lits_def)
qed

subsection \<open>One iteration of the loop, case by case\<close>

lemma scan_line_old:
  "re_match old_pattern line = Some t \<Longrightarrow>
   scan_line E lang fm w st line =
     (w, Inr \<lparr>output_lines = output_lines st @ [line], buffer_old_text = Some t\<rparr>)"
  by (simp add: scan_line_def)

lemma scan_line_plain:
  "re_match old_pattern line = None \<Longrightarrow> re_match new_pattern line = None \<Longrightarrow>
   scan_line E lang fm w st line = (w, Inr (st\<lparr>output_lines := output_lines st @ [line]\<rparr>))"
  by (simp add: scan_line_def)

lemma scan_line_new_no_buffer:
  "re_match new_pattern line = Some cur \<Longrightarrow> buffer_old_text st = None \<Longrightarrow>
   scan_line E lang fm w st line = (w, Inr (st\<lparr>output_lines := output_lines st @ [line]\<rparr>))"
  by (simp add: scan_line_def new_not_old)

lemma scan_line_new_nonblank:
  "re_match new_pattern line = Some cur \<Longrightarrow> strip cur \<noteq> [] \<Longrightarrow>
   scan_line E lang fm w st line =
     (w, Inr \<lparr>output_lines = output_lines st @ [line], buffer_old_text = None\<rparr>)"
  by (cases "buffer_old_text st") (simp_all add: scan_line_def new_not_old)

lemma scan_line_fill:
  "re_match new_pattern line = Some cur \<Longrightarrow> strip cur = [] \<Longrightarrow>
   buffer_old_text st = Some b \<Longrightarrow>
   scan_line E lang fm w st line =
     (case translate_text E w b lang fm of
        (w', Inl e) \<Rightarrow> (w', Inl e)
      | (w', Inr translation) \<Rightarrow>
          (case re_sub sub_pattern (str ''new \"'' @ translation @ str ''\"'') line of
             Inl e \<Rightarrow> (w', Inl e)
           | Inr updated_line \<Rightarrow>
               (w', Inr \<lparr>output_lines = output_lines st @ [updated_line],
                         buffer_old_text = None\<rparr>)))"
  by (simp add: scan_line_def new_not_old)

text \<open>What one iteration appends: the line itself, or a blank target line filled.\<close>

lemma scan_line_emits:
  assumes "scan_line E lang fm w st line = (w', Inr st')"
  shows "\<exists>x. output_lines st' = output_lines st @ [x] \<and>
           (x = line \<or>
            (\<exists>cur b tr. re_match new_pattern line = Some cur \<and> strip cur = [] \<and>
               buffer_old_text st = Some b \<and>
               re_sub sub_pattern (str ''new \"'' @ tr @ str ''\"'') line = Inr x))"
  using assms
  by (auto simp: scan_line_def split: option.splits if_splits prod.splits sum.splits)

lemma scan_lines_append:
  "scan_lines E lang fm w st (xs @ ys) =
     (case scan_lines E lang fm w st xs of
        (w', Inl e) \<Rightarrow> (w', Inl e)
      | (w', Inr st') \<Rightarrow> scan_lines E lang fm w' st' ys)"
  by (induction xs arbitrary: w st) (auto split: prod.splits sum.splits)

lemma scan_lines_emits:
  assumes "scan_lines E lang fm w st lines = (w', Inr st')"
  shows "\<exists>outs. output_lines st' = output_lines st @ outs \<and>
           list_all2 (\<lambda>l x. x = l \<or>
              (\<exists>cur tr. re_match new_pattern l = Some cur \<and> strip cur = [] \<and>
                 re_sub sub_pattern (str ''new \"'' @ tr @ str ''\"'') l = Inr x)) lines outs"
  using assms
proof (induction lines arbitrary: w st)
  case Nil
  then show ?case by simp
next
  case (Cons line rest)
  from Cons.prems obtain w1 st1 where
    step: "scan_line E lang fm w st line = (w1, Inr st1)" and
    rest: "scan_lines E lang fm w1 st1 rest = (w', Inr st')"
    by (auto split: prod.splits sum.splits)
  from scan_line_emits [OF step] obtain x where
    x: "output_lines st1 = output_lines st @ [x]" and
    px: "x = line \<or>
         (\<exists>cur tr. re_match new_pattern line = Some cur \<and> strip cur = [] \<and>
            re_sub sub_pattern (str ''new \"'' @ tr @ str ''\"'') line = Inr x)"
    by blast
  from Cons.IH [OF rest] obtain outs where
    outs: "output_lines st' = output_lines st1 @ outs" and
    pouts: "list_all2 (\<lambda>l x. x = l \<or>
              (\<exists>cur tr. re_match new_pattern l = Some cur \<and> strip cur = [] \<and>
                 re_sub sub_pattern (str ''new \"'' @ tr @ str ''\"'') l = Inr x)) rest outs"
    by blast
  show ?case
  proof (intro exI conjI)
    show "output_lines st' = output_lines st @ (x # outs)"
      using x outs by simp
    show "list_all2 (\<lambda>l x. x = l \<or>
              (\<exists>cur tr. re_match new_pattern l = Some cur \<and> strip cur = [] \<and>
                 re_sub sub_pattern (str ''new \"'' @ tr @ str ''\"'') l = Inr x))
            (line # rest) (x # outs)"
      using px pouts by simp
  qed
qed

text \<open>Without a target line nothing is translated and every line is copied.\<close>

lemma scan_lines_no_target:
  assumes "\<forall>l\<in>set post. re_match new_pattern l = None"
  shows "\<exists>b'. scan_lines E lang fm w st post =
           (w, Inr \<lparr>output_lines = output_lines st @ post, buffer_old_text = b'\<rparr>)"
  using assms
proof (induction post arbitrary: st)
  case Nil
  show ?case
    by (rule exI [of _ "buffer_old_text st"]) simp
next
  case (Cons line rest)
  then have new: "re_match new_pattern line = None" by simp
  obtain st1 where
    step: "scan_line E lang fm w st line = (w, Inr st1)" and
    out1: "output_lines st1 = output_lines st @ [line]"
  proof (cases "re_match old_pattern line")
    case None
    with new that show ?thesis
      by (simp add: scan_line_plain)
  next
    case (Some t)
    with that show ?thesis
      by (simp add: scan_line_old)
  qed
  from Cons have "\<exists>b'. scan_lines E lang fm w st1 rest =
           (w, Inr \<lparr>output_lines = output_lines st1 @ rest, buffer_old_text = b'\<rparr>)"
    by simp
  with step out1 show ?case by simp
qed

lemma scan_lines_no_source:
  assumes "\<forall>l\<in>set pre. re_match old_pattern l = None" and "buffer_old_text st = None"
  shows "scan_lines E lang fm w st pre = (w, Inr (st\<lparr>output_lines := output_lines st @ pre\<rparr>))"
  using assms
proof (induction pre arbitrary: st)
  case Nil
  show ?case by simp
next
  case (Cons line rest)
  then have old: "re_match old_pattern line = None" by simp
  have step: "scan_line E lang fm w st line = (w, Inr (st\<lparr>output_lines := output_lines st @ [line]\<rparr>))"
  proof (cases "re_match new_pattern line")
    case None
    with old show ?thesis by (simp add: scan_line_plain)
  next
    case (Some cur)
    with Cons.prems(2) show ?thesis by (simp add: scan_line_new_no_buffer)
  qed
  have "scan_lines E lang fm w (st\<lparr>output_lines := output_lines st @ [line]\<rparr>) rest =
          (w, Inr (st\<lparr>output_lines := output_lines st @ [line]\<rparr>
                     \<lparr>output_lines := output_lines (st\<lparr>output_lines := output_lines st @ [line]\<rparr>) @ rest\<rparr>))"
    using Cons.prems by (intro Cons.IH) simp_all
  with step show ?case by simp
qed

section \<open>What the patterns match\<close>

text \<open>
  \<^verbatim>\<open>.*"\<close> at the end of a pattern, greedy: in a text with no line feed before it, the
  quote that is matched is the last one.
\<close>

lemma rx_match_Star_One_Space:
  "rx_match (Star Space # One (Lit DQUOTE) # r) s =
     rx_match (One (Lit DQUOTE) # r) (dropWhile isspace s)"
proof -
  have "rx_match (Star Space # One (Lit DQUOTE) # r) s =
      rx_match (One (Lit DQUOTE) # r) (dropWhile (accepts Space) s)"
    by (rule rx_match_Star_One) (auto simp: isspace_def)
  moreover have "accepts Space = isspace"
    by (rule ext) simp
  ultimately show ?thesis by simp
qed

lemma group_dot_star_no_quote:
  "DQUOTE \<notin> set s \<Longrightarrow> rx_match [Group_Star Dot, One (Lit DQUOTE)] s = None"
  by (induction s) auto

lemma dot_star_no_quote:
  "DQUOTE \<notin> set s \<Longrightarrow> rx_match [Star Dot, One (Lit DQUOTE)] s = None"
  by (induction s) auto

lemma group_dot_star_last_quote:
  "LF \<notin> set a \<Longrightarrow> DQUOTE \<notin> set b \<Longrightarrow>
   rx_match [Group_Star Dot, One (Lit DQUOTE)] (a @ DQUOTE # b) = Some (a, b)"
  by (induction a) (simp_all add: group_dot_star_no_quote)

lemma dot_star_last_quote:
  "LF \<notin> set a \<Longrightarrow> DQUOTE \<notin> set b \<Longrightarrow>
   rx_match [Star Dot, One (Lit DQUOTE)] (a @ DQUOTE # b) = Some ([], b)"
  by (induction a) (simp_all add: dot_star_no_quote)

lemma group_dot_star_sound:
  assumes "rx_match [Group_Star Dot, One (Lit DQUOTE)] s = Some (g, r)" and "LF \<notin> set s"
  shows "s = g @ DQUOTE # r \<and> DQUOTE \<notin> set r"
  using assms
proof (induction s arbitrary: g r)
  case Nil
  then show ?case by simp
next
  case (Cons c s)
  from Cons.prems(2) have c: "c \<noteq> LF" and s: "LF \<notin> set s"
    by auto
  show ?case
  proof (cases "rx_match [Group_Star Dot, One (Lit DQUOTE)] s")
    case None
    have "DQUOTE \<notin> set s"
    proof
      assume "DQUOTE \<in> set s"
      then obtain a b where "s = a @ DQUOTE # b" "DQUOTE \<notin> set b"
        by (auto dest: split_list_last)
      with s have "rx_match [Group_Star Dot, One (Lit DQUOTE)] s = Some (a, b)"
        by (simp add: group_dot_star_last_quote)
      with None show False by simp
    qed
    with None Cons.prems(1) c show ?thesis
      by (auto split: if_splits)
  next
    case (Some m)
    obtain g' r' where m: "m = (g', r')"
      by (cases m)
    with Some Cons.prems(1) c have "g = c # g'" "r = r'"
      by auto
    moreover from Cons.IH [OF _ s] Some m have "s = g' @ DQUOTE # r' \<and> DQUOTE \<notin> set r'"
      by simp
    ultimately show ?thesis by simp
  qed
qed

lemma rx_match_One_Some:
  "rx_match (One a # p) s = Some m \<Longrightarrow> \<exists>c r. s = c # r \<and> accepts a c \<and> rx_match p r = Some m"
  by (cases s) (auto split: if_splits)

text \<open>
  A line without line feed that \<^verbatim>\<open>new_pattern\<close> matches is: whitespace, \<^verbatim>\<open>new\<close>,
  whitespace (some), a quote, the payload, the last quote of the line, and a rest with
  no quote.
\<close>

lemma new_pattern_shape:
  assumes "rx_match new_pattern line = Some (cur, rest)" and "LF \<notin> set line"
  shows "\<exists>sp. line = takeWhile isspace line @ str ''new'' @ sp @ DQUOTE # cur @ DQUOTE # rest \<and>
           sp \<noteq> [] \<and> (\<forall>c\<in>set sp. isspace c) \<and> DQUOTE \<notin> set rest \<and> LF \<notin> set cur"
proof -
  let ?tail = "[Plus Space, One (Lit DQUOTE), Group_Star Dot, One (Lit DQUOTE)]"
  have line: "line = takeWhile isspace line @ dropWhile isspace line"
    by simp
  from assms(1) have m1: "rx_match (tl new_pattern) (dropWhile isspace line) = Some (cur, rest)"
    by (simp add: new_pattern_head)
  then have "rx_match (One (Lit 110) # One (Lit 101) # One (Lit 119) # ?tail)
      (dropWhile isspace line) = Some (cur, rest)"
    by (simp add: new_pattern_def lits_def)
  then obtain r1 where d: "dropWhile isspace line = str ''new'' @ r1"
    and m2: "rx_match ?tail r1 = Some (cur, rest)"
    by (auto simp: str_def dest!: rx_match_One_Some)
  from m2 obtain c r2 where r1: "r1 = c # r2" and c: "isspace c"
    and m3: "rx_match (Star Space # One (Lit DQUOTE) # [Group_Star Dot, One (Lit DQUOTE)]) r2 =
      Some (cur, rest)"
    by (cases r1) (auto split: if_splits)
  from m3 have m4: "rx_match (One (Lit DQUOTE) # [Group_Star Dot, One (Lit DQUOTE)])
      (dropWhile isspace r2) = Some (cur, rest)"
    by (simp only: rx_match_Star_One_Space)
  then obtain body where r2: "dropWhile isspace r2 = DQUOTE # body"
    and m5: "rx_match [Group_Star Dot, One (Lit DQUOTE)] body = Some (cur, rest)"
    by (cases "dropWhile isspace r2") (auto split: if_splits)
  have r2split: "r2 = takeWhile isspace r2 @ DQUOTE # body"
    using r2 by (metis takeWhile_dropWhile_id)
  have whole: "line = takeWhile isspace line @ str ''new'' @ (c # takeWhile isspace r2) @ DQUOTE # body"
    using line d r1 r2split by (metis append_Cons)
  with assms(2) have "LF \<notin> set body"
    by (metis Un_iff list.set_intros(2) set_append)
  with m5 have body: "body = cur @ DQUOTE # rest \<and> DQUOTE \<notin> set rest"
    by (rule group_dot_star_sound)
  with \<open>LF \<notin> set body\<close> have "LF \<notin> set cur"
    by auto
  moreover have "\<forall>x\<in>set (c # takeWhile isspace r2). isspace x"
    using c by (auto dest: set_takeWhileD)
  ultimately show ?thesis
    using whole body by (intro exI [of _ "c # takeWhile isspace r2"]) simp
qed

subsection \<open>The substitution on a target line\<close>

lemma sub_pattern_no_quote:
  assumes "DQUOTE \<notin> set s"
  shows "rx_match sub_pattern s = None"
proof (rule ccontr)
  assume "rx_match sub_pattern s \<noteq> None"
  then obtain m where "rx_match (One (Lit 110) # One (Lit 101) # One (Lit 119) #
      [Plus Space, One (Lit DQUOTE), Star Dot, One (Lit DQUOTE)]) s = Some m"
    by (auto simp: sub_pattern_def lits_def)
  then obtain r1 where s: "s = 110 # 101 # 119 # r1"
    and m1: "rx_match [Plus Space, One (Lit DQUOTE), Star Dot, One (Lit DQUOTE)] r1 = Some m"
    by (auto dest!: rx_match_One_Some)
  from m1 obtain c r2 where r1: "r1 = c # r2"
    and m2: "rx_match (Star Space # One (Lit DQUOTE) # [Star Dot, One (Lit DQUOTE)]) r2 = Some m"
    by (cases r1) (auto split: if_splits)
  from m2 have "rx_match (One (Lit DQUOTE) # [Star Dot, One (Lit DQUOTE)]) (dropWhile isspace r2) = Some m"
    by (simp only: rx_match_Star_One_Space)
  then obtain body where "dropWhile isspace r2 = DQUOTE # body"
    by (auto dest!: rx_match_One_Some)
  then have "DQUOTE \<in> set (dropWhile isspace r2)"
    by simp
  then have "DQUOTE \<in> set r2"
    by (rule set_dropWhileD)
  with assms s r1 show False
    by simp
qed

lemma sub_all_no_quote:
  "DQUOTE \<notin> set s \<Longrightarrow> sub_all sub_pattern parts s = s"
proof (induction s)
  case Nil
  then show ?case
    by (subst sub_all.simps) (simp add: sub_pattern_no_quote)
next
  case (Cons c s)
  then have "rx_match sub_pattern (c # s) = None"
    by (intro sub_pattern_no_quote) simp
  with Cons show ?case
    by (subst sub_all.simps) simp
qed

lemma sub_all_skip_space:
  "\<forall>c\<in>set ws. isspace c \<Longrightarrow>
   sub_all sub_pattern parts (ws @ s) = ws @ sub_all sub_pattern parts s"
proof (induction ws)
  case Nil
  show ?case by simp
next
  case (Cons c ws)
  then have "isspace c" by simp
  then have "c \<noteq> 110"
    by (auto simp: isspace_def)
  then have "rx_match sub_pattern (c # ws @ s) = None"
    by (simp add: sub_pattern_def lits_def)
  with Cons show ?case
    by (subst sub_all.simps) simp
qed

lemma sub_pattern_match:
  assumes "sp \<noteq> []" and "\<forall>c\<in>set sp. isspace c" and "LF \<notin> set cur" and "DQUOTE \<notin> set rest"
  shows "rx_match sub_pattern (str ''new'' @ sp @ DQUOTE # cur @ DQUOTE # rest) = Some ([], rest)"
proof -
  from assms(1) obtain c sp' where sp: "sp = c # sp'"
    by (cases sp) auto
  with assms(2) have c: "isspace c" and sp': "\<And>x. x \<in> set sp' \<Longrightarrow> isspace x"
    by auto
  have "\<not> isspace DQUOTE"
    by (simp add: isspace_def)
  then have "dropWhile isspace (sp' @ DQUOTE # cur @ DQUOTE # rest) = DQUOTE # cur @ DQUOTE # rest"
    using sp' by simp
  then have "rx_match (Star Space # One (Lit DQUOTE) # [Star Dot, One (Lit DQUOTE)])
      (sp' @ DQUOTE # cur @ DQUOTE # rest) = Some ([], rest)"
    using assms(3,4) by (simp add: rx_match_Star_One_Space dot_star_last_quote)
  with c sp show ?thesis
    by (simp add: sub_pattern_def lits_def str_def)
qed

lemma sub_all_match:
  assumes "rx_match p (m @ rest) = Some (g, rest)" and "m \<noteq> []"
  shows "sub_all p parts (m @ rest) = expand_template parts m @ sub_all p parts rest"
  using assms by (subst sub_all.simps) simp

lemma sub_all_new_line:
  assumes "\<forall>c\<in>set ws. isspace c" and "sp \<noteq> []" and "\<forall>c\<in>set sp. isspace c"
    and "LF \<notin> set cur" and "DQUOTE \<notin> set rest"
  shows "sub_all sub_pattern parts (ws @ str ''new'' @ sp @ DQUOTE # cur @ DQUOTE # rest) =
           ws @ expand_template parts (str ''new'' @ sp @ DQUOTE # cur @ [DQUOTE]) @ rest"
proof -
  let ?m = "str ''new'' @ sp @ DQUOTE # cur @ [DQUOTE]"
  have eq: "str ''new'' @ sp @ DQUOTE # cur @ DQUOTE # rest = ?m @ rest"
    by simp
  have "rx_match sub_pattern (?m @ rest) = Some ([], rest)"
    using sub_pattern_match [OF assms(2-5)] by simp
  moreover have "?m \<noteq> []"
    by (simp add: str_def)
  ultimately have "sub_all sub_pattern parts (?m @ rest) =
      expand_template parts ?m @ sub_all sub_pattern parts rest"
    by (rule sub_all_match)
  moreover have "sub_all sub_pattern parts rest = rest"
    using assms(5) by (rule sub_all_no_quote)
  moreover have "sub_all sub_pattern parts (ws @ (?m @ rest)) = ws @ sub_all sub_pattern parts (?m @ rest)"
    using assms(1) by (rule sub_all_skip_space)
  ultimately show ?thesis
    by (simp only: eq)
qed

lemma parse_template_plain:
  "BACKSLASH \<notin> set s \<Longrightarrow> parse_template s = Inr (map Literal s)"
  by (induction s) (simp_all add: cons_part_def)

lemma expand_template_plain: "expand_template (map Literal s) g0 = s"
  by (induction s) simp_all

lemma new_pattern_match:
  assumes "\<forall>c\<in>set ws. isspace c" and "LF \<notin> set payload" and "DQUOTE \<notin> set rest"
  shows "rx_match new_pattern (ws @ str ''new \"'' @ payload @ str ''\"'' @ rest) = Some (payload, rest)"
proof -
  have "\<not> isspace 110"
    by (simp add: isspace_def)
  then have "dropWhile isspace (ws @ str ''new \"'' @ payload @ str ''\"'' @ rest) =
      str ''new \"'' @ payload @ str ''\"'' @ rest"
    using assms(1) by (simp add: str_def)
  moreover have "rx_match (tl new_pattern) (str ''new \"'' @ payload @ str ''\"'' @ rest) =
      Some (payload, rest)"
    using assms(2,3)
    by (simp add: new_pattern_def lits_def str_def isspace_def rx_match_Star_One_Space
        group_dot_star_last_quote)
  ultimately show ?thesis
    by (simp add: new_pattern_head)
qed

lemma re_sub_new_line:
  assumes "rx_match new_pattern line = Some (cur, rest)" and "LF \<notin> set line"
    and "BACKSLASH \<notin> set repl"
  shows "re_sub sub_pattern repl line = Inr (takeWhile isspace line @ repl @ rest)"
proof -
  define ws where "ws = takeWhile isspace line"
  from new_pattern_shape [OF assms(1,2)] obtain sp where
    line: "line = ws @ str ''new'' @ sp @ DQUOTE # cur @ DQUOTE # rest" and
    sp: "sp \<noteq> []" "\<forall>c\<in>set sp. isspace c" and
    rest: "DQUOTE \<notin> set rest" and cur: "LF \<notin> set cur"
    unfolding ws_def by blast
  have ws: "\<forall>c\<in>set ws. isspace c"
    by (auto simp: ws_def dest: set_takeWhileD)
  have "sub_all sub_pattern (map Literal repl) (ws @ str ''new'' @ sp @ DQUOTE # cur @ DQUOTE # rest) =
      ws @ expand_template (map Literal repl) (str ''new'' @ sp @ DQUOTE # cur @ [DQUOTE]) @ rest"
    using ws sp cur rest by (rule sub_all_new_line)
  with line have "sub_all sub_pattern (map Literal repl) line = ws @ repl @ rest"
    by (simp only: expand_template_plain)
  with assms(3) show ?thesis
    by (simp add: re_sub_def parse_template_plain ws_def)
qed

section \<open>Filling a target line\<close>

text \<open>
  What the script does at a target declaration with a blank payload while the text \<open>t\<close>
  is pending, when the call for \<open>t\<close> returns a translation with no backslash in it: the
  line appended is the indentation of the target line, \<^verbatim>\<open>new "\<close>, the translation,
  \<^verbatim>\<open>"\<close>, and what followed the closing quote. (The whitespace between \<^verbatim>\<open>new\<close> and the
  quote becomes one space.) Read again by \<^verbatim>\<open>new_pattern\<close>, the payload of that line is
  the translation, provided the translation has no line feed.
\<close>

theorem fill_places_translation:
  assumes "rx_match new_pattern line = Some (cur, rest)" and "LF \<notin> set line"
    and "strip cur = []" and "buffer_old_text st = Some t"
    and "translate_text E w t lang fm = (w', Inr translation)"
    and "BACKSLASH \<notin> set translation"
  shows "scan_line E lang fm w st line =
           (w', Inr \<lparr>output_lines = output_lines st @
                       [takeWhile isspace line @ str ''new \"'' @ translation @ str ''\"'' @ rest],
                     buffer_old_text = None\<rparr>) \<and>
         (LF \<notin> set translation \<longrightarrow>
            re_match new_pattern
              (takeWhile isspace line @ str ''new \"'' @ translation @ str ''\"'' @ rest) =
            Some translation)"
proof (intro conjI impI)
  have new: "re_match new_pattern line = Some cur"
    using assms(1) by (simp add: re_match_def)
  have "BACKSLASH \<notin> set (str ''new \"'' @ translation @ str ''\"'')"
    using assms(6) by (simp add: str_def)
  with assms(1,2) have "re_sub sub_pattern (str ''new \"'' @ translation @ str ''\"'') line =
      Inr (takeWhile isspace line @ (str ''new \"'' @ translation @ str ''\"'') @ rest)"
    by (rule re_sub_new_line)
  with assms(5) show "scan_line E lang fm w st line =
      (w', Inr \<lparr>output_lines = output_lines st @
                  [takeWhile isspace line @ str ''new \"'' @ translation @ str ''\"'' @ rest],
                buffer_old_text = None\<rparr>)"
    by (simp add: scan_line_fill [OF new assms(3,4)])
next
  assume "LF \<notin> set translation"
  moreover have "\<forall>c\<in>set (takeWhile isspace line). isspace c"
    by (auto dest: set_takeWhileD)
  moreover from new_pattern_shape [OF assms(1,2)] have "DQUOTE \<notin> set rest"
    by blast
  ultimately have "rx_match new_pattern
      (takeWhile isspace line @ str ''new \"'' @ translation @ str ''\"'' @ rest) =
      Some (translation, rest)"
    by (intro new_pattern_match)
  then show "re_match new_pattern
      (takeWhile isspace line @ str ''new \"'' @ translation @ str ''\"'' @ rest) = Some translation"
    by (simp add: re_match_def)
qed

text \<open>
  The theorem at the indented line \<^verbatim>\<open>new   "" # c\<close> with \<^verbatim>\<open>Hello\<close> pending and the
  service answering \<^verbatim>\<open>Hallo\<close>.
\<close>

theorem fill_places_translation_witness:
  "rx_match new_pattern (str ''  new   \"\" # c'') = Some ([], str '' # c'') \<and>
   LF \<notin> set (str ''  new   \"\" # c'') \<and> strip [] = [] \<and>
   snd (translate_text (test_env (Some (str ''k'')) (Data (Some [str ''Hallo''])))
          (test_world []) (str ''Hello'') (str ''DE'') (str ''default'')) = Inr (str ''Hallo'') \<and>
   BACKSLASH \<notin> set (str ''Hallo'') \<and>
   snd (scan_line (test_env (Some (str ''k'')) (Data (Some [str ''Hallo'']))) (str ''DE'')
          (str ''default'') (test_world [])
          \<lparr>output_lines = [], buffer_old_text = Some (str ''Hello'')\<rparr> (str ''  new   \"\" # c'')) =
     Inr \<lparr>output_lines = [str ''  new \"Hallo\" # c''], buffer_old_text = None\<rparr>"
proof -
  let ?E = "test_env (Some (str ''k'')) (Data (Some [str ''Hallo'']))"
  let ?line = "str ''  new   \"\" # c''"
  let ?st = "\<lparr>output_lines = [], buffer_old_text = Some (str ''Hello'')\<rparr>"
  let ?call = "translate_text ?E (test_world []) (str ''Hello'') (str ''DE'') (str ''default'')"
  have m: "rx_match new_pattern ?line = Some ([], str '' # c'')"
    by (simp add: scan_eval)
  have lf: "LF \<notin> set ?line"
    by (simp add: str_def)
  have blank: "strip [] = []"
    by (simp add: strip_def)
  have buf: "buffer_old_text ?st = Some (str ''Hello'')"
    by simp
  have res: "snd ?call = Inr (str ''Hallo'')"
    by (simp add: scan_eval)
  then have call: "?call = (fst ?call, Inr (str ''Hallo''))"
    by (metis prod.collapse)
  have bs: "BACKSLASH \<notin> set (str ''Hallo'')"
    by (simp add: str_def)
  from fill_places_translation [OF m lf blank buf call bs]
  have "scan_line ?E (str ''DE'') (str ''default'') (test_world []) ?st ?line =
      (fst ?call, Inr \<lparr>output_lines = output_lines ?st @
          [takeWhile isspace ?line @ str ''new \"'' @ str ''Hallo'' @ str ''\"'' @ str '' # c''],
        buffer_old_text = None\<rparr>)"
    by blast
  moreover have "takeWhile isspace ?line @ str ''new \"'' @ str ''Hallo'' @ str ''\"'' @ str '' # c'' =
      str ''  new \"Hallo\" # c''"
    by (simp add: str_def isspace_def)
  ultimately have "snd (scan_line ?E (str ''DE'') (str ''default'') (test_world []) ?st ?line) =
      Inr \<lparr>output_lines = [str ''  new \"Hallo\" # c''], buffer_old_text = None\<rparr>"
    by simp
  with m lf blank res bs show ?thesis
    by blast
qed

subsection \<open>A translation with a backslash\<close>

text \<open>
  Claim C1 (the empty payload of the target line is replaced by the result of the
  translation call, the source line staying as it is) does not hold of the code for
  every translation: the translation is handed to \<^verbatim>\<open>re.sub\<close> as its
  replacement, and \<^verbatim>\<open>re.sub\<close> reads a replacement as a template. Here the file has the
  lines \<^verbatim>\<open>old "a\nb"\<close> and \<^verbatim>\<open>new ""\<close> (backslash and \<^verbatim>\<open>n\<close>, as scripts write a line
  break inside a text) and the service answers \<^verbatim>\<open>c\nd\<close>. The call returns that text,
  and the target line written is \<^verbatim>\<open>new "c\<close>, a line feed, \<^verbatim>\<open>d"\<close>: its payload is not the
  translation, and the file has three lines now.
\<close>

theorem fill_with_backslash_in_translation:
  "snd (translate_text (test_env (Some (str ''k'')) (Data (Some [str ''c'' @ [BACKSLASH] @ str ''nd''])))
          (test_world (str ''old \"a'' @ [BACKSLASH] @ str ''nb\"'' @ [LF] @ str ''new \"\"''))
          (str ''a'' @ [BACKSLASH] @ str ''nb'') (str ''DE'') (str ''default'')) =
     Inr (str ''c'' @ [BACKSLASH] @ str ''nd'') \<and>
   process_rpy_file (test_env (Some (str ''k'')) (Data (Some [str ''c'' @ [BACKSLASH] @ str ''nd''])))
       (test_world (str ''old \"a'' @ [BACKSLASH] @ str ''nb\"'' @ [LF] @ str ''new \"\"''))
       (str ''script.rpy'') (str ''DE'') (str ''default'') =
     (\<lparr>requests = [\<lparr>p_auth_key = str ''k'', p_text = str ''a'' @ [BACKSLASH] @ str ''nb'',
                      p_target_lang = str ''DE'', p_formality = None\<rparr>],
       files = [str ''script.rpy'' \<mapsto>
          str ''old \"a'' @ [BACKSLASH] @ str ''nb\"'' @ [LF] @ str ''new \"c'' @ [LF] @ str ''d\"'']\<rparr>,
      Inr ()) \<and>
   str ''new \"c'' @ [LF] @ str ''d\"'' \<noteq> str ''new \"c'' @ [BACKSLASH] @ str ''nd\"''"
  by (simp add: file_eval)

section \<open>The pass-through of the translation client\<close>

text \<open>
  With a key, when the request fails with a \<^verbatim>\<open>RequestException\<close>, \<^verbatim>\<open>translate_text\<close>
  returns the text it was given and raises nothing; one request was sent and no file
  was touched.
\<close>

theorem translate_text_pass_through:
  assumes "DEEPL_API_KEY E = Some key" and "key \<noteq> []"
    and "\<And>q. requests_post E (length (requests w)) q = RequestException"
  shows "snd (translate_text E w t lang fm) = Inr t \<and>
         files (fst (translate_text E w t lang fm)) = files w \<and>
         (\<exists>q. requests (fst (translate_text E w t lang fm)) = requests w @ [q] \<and>
            p_auth_key q = key \<and> p_text q = t \<and> p_target_lang q = lang)"
  using assms by (simp add: translate_text_def Let_def)

theorem translate_text_pass_through_witness:
  "DEEPL_API_KEY (test_env (Some (str ''k'')) RequestException) = Some (str ''k'') \<and>
   str ''k'' \<noteq> [] \<and>
   snd (translate_text (test_env (Some (str ''k'')) RequestException) (test_world [])
          (str ''Hello'') (str ''DE'') (str ''default'')) = Inr (str ''Hello'')"
proof -
  let ?E = "test_env (Some (str ''k'')) RequestException"
  have key: "DEEPL_API_KEY ?E = Some (str ''k'')" "str ''k'' \<noteq> []"
    by (simp_all add: test_env_def str_def)
  have down: "\<And>q. requests_post ?E (length (requests (test_world []))) q = RequestException"
    by (simp add: test_env_def)
  from translate_text_pass_through [OF key down, of "str ''Hello''" "str ''DE''" "str ''default''"] key
  show ?thesis
    by blast
qed

subsection \<open>A source text with a backslash\<close>

text \<open>
  Claim C2 (on a transport failure the call returns its input, so the target line gets
  the source payload and the run goes on) holds of \<^verbatim>\<open>translate_text\<close> and fails of the
  file, by the same reading of the replacement as a template. With the service out of reach the call for \<^verbatim>\<open>a\nb\<close> returns
  \<^verbatim>\<open>a\nb\<close>, but the target line written is \<^verbatim>\<open>new "a\<close>, a line feed, \<^verbatim>\<open>b"\<close>. And for the
  source text \<^verbatim>\<open>C:\dir\<close> the call returns the text and \<^verbatim>\<open>re.sub\<close> raises on the escape
  \<^verbatim>\<open>\d\<close>: the run is aborted after the request and the file is left as it was.
\<close>

theorem pass_through_with_backslash_in_source:
  "snd (translate_text (test_env (Some (str ''k'')) RequestException)
          (test_world (str ''old \"a'' @ [BACKSLASH] @ str ''nb\"'' @ [LF] @ str ''new \"\"''))
          (str ''a'' @ [BACKSLASH] @ str ''nb'') (str ''DE'') (str ''default'')) =
     Inr (str ''a'' @ [BACKSLASH] @ str ''nb'') \<and>
   process_rpy_file (test_env (Some (str ''k'')) RequestException)
       (test_world (str ''old \"a'' @ [BACKSLASH] @ str ''nb\"'' @ [LF] @ str ''new \"\"''))
       (str ''script.rpy'') (str ''DE'') (str ''default'') =
     (\<lparr>requests = [\<lparr>p_auth_key = str ''k'', p_text = str ''a'' @ [BACKSLASH] @ str ''nb'',
                      p_target_lang = str ''DE'', p_formality = None\<rparr>],
       files = [str ''script.rpy'' \<mapsto>
          str ''old \"a'' @ [BACKSLASH] @ str ''nb\"'' @ [LF] @ str ''new \"a'' @ [LF] @ str ''b\"'']\<rparr>,
      Inr ()) \<and>
   str ''new \"a'' @ [LF] @ str ''b\"'' \<noteq> str ''new \"a'' @ [BACKSLASH] @ str ''nb\"'' \<and>
   process_rpy_file (test_env (Some (str ''k'')) RequestException)
       (test_world (str ''old \"C:'' @ [BACKSLASH] @ str ''dir\"'' @ [LF] @ str ''new \"\"''))
       (str ''script.rpy'') (str ''DE'') (str ''default'') =
     (\<lparr>requests = [\<lparr>p_auth_key = str ''k'', p_text = str ''C:'' @ [BACKSLASH] @ str ''dir'',
                      p_target_lang = str ''DE'', p_formality = None\<rparr>],
       files = [str ''script.rpy'' \<mapsto>
          str ''old \"C:'' @ [BACKSLASH] @ str ''dir\"'' @ [LF] @ str ''new \"\"'']\<rparr>,
      Inl ReError)"
  by (simp add: file_eval)

section \<open>Target lines that already carry a text\<close>

lemma scan_lines_nonblank_kept:
  assumes "scan_lines E lang fm w st lines = (w', Inr st')"
    and "i < length lines"
    and "re_match new_pattern (lines ! i) = Some cur" and "strip cur \<noteq> []"
  shows "output_lines st' ! (length (output_lines st) + i) = lines ! i"
proof -
  from scan_lines_emits [OF assms(1)] obtain outs where
    outs: "output_lines st' = output_lines st @ outs" and
    all: "list_all2 (\<lambda>l x. x = l \<or>
              (\<exists>cur tr. re_match new_pattern l = Some cur \<and> strip cur = [] \<and>
                 re_sub sub_pattern (str ''new \"'' @ tr @ str ''\"'') l = Inr x)) lines outs"
    by blast
  from all assms(2) have "outs ! i = lines ! i \<or>
      (\<exists>cur tr. re_match new_pattern (lines ! i) = Some cur \<and> strip cur = [] \<and>
         re_sub sub_pattern (str ''new \"'' @ tr @ str ''\"'') (lines ! i) = Inr (outs ! i))"
    by (simp add: list_all2_conv_all_nth)
  with assms(3,4) have "outs ! i = lines ! i"
    by auto
  with outs show ?thesis
    by simp
qed

text \<open>
  Claim C3, as the code has it. The test of the script is \<^verbatim>\<open>current_new_text.strip() == ""\<close>:
  a payload is filled when it is blank (empty or whitespace only), not only when it is
  empty. So:
  \<^item> a target declaration whose payload is not blank is appended byte for byte, whatever
    is pending, the pending text is dropped and nothing is sent;
  \<^item> an iteration appends something else than its line only at a target declaration with
    a blank payload while a source text is pending;
  \<^item> over a whole scan, the output at the position of a target declaration whose payload
    is not blank is that line.
\<close>

theorem nonblank_target_line_is_kept:
  "(re_match new_pattern line = Some cur \<longrightarrow> strip cur \<noteq> [] \<longrightarrow>
      scan_line E lang fm w st line =
        (w, Inr \<lparr>output_lines = output_lines st @ [line], buffer_old_text = None\<rparr>)) \<and>
   (scan_line E lang fm w st line = (w', Inr st') \<longrightarrow> output_lines st' \<noteq> output_lines st @ [line] \<longrightarrow>
      (\<exists>cur b. re_match new_pattern line = Some cur \<and> strip cur = [] \<and>
         buffer_old_text st = Some b)) \<and>
   (scan_lines E lang fm w st lines = (w', Inr st') \<longrightarrow> i < length lines \<longrightarrow>
      re_match new_pattern (lines ! i) = Some cur \<longrightarrow> strip cur \<noteq> [] \<longrightarrow>
      output_lines st' ! (length (output_lines st) + i) = lines ! i)"
proof (intro conjI impI)
  assume "re_match new_pattern line = Some cur" "strip cur \<noteq> []"
  then show "scan_line E lang fm w st line =
      (w, Inr \<lparr>output_lines = output_lines st @ [line], buffer_old_text = None\<rparr>)"
    by (rule scan_line_new_nonblank)
next
  assume step: "scan_line E lang fm w st line = (w', Inr st')"
    and other: "output_lines st' \<noteq> output_lines st @ [line]"
  from scan_line_emits [OF step] other
  show "\<exists>cur b. re_match new_pattern line = Some cur \<and> strip cur = [] \<and> buffer_old_text st = Some b"
    by auto
next
  assume "scan_lines E lang fm w st lines = (w', Inr st')" "i < length lines"
    "re_match new_pattern (lines ! i) = Some cur" "strip cur \<noteq> []"
  then show "output_lines st' ! (length (output_lines st) + i) = lines ! i"
    by (rule scan_lines_nonblank_kept)
qed

text \<open>
  The theorem at the target line \<^verbatim>\<open>new "x"\<close> with the text \<^verbatim>\<open>a\<close> pending, alone and as
  the second of the two lines \<^verbatim>\<open>old "a"\<close> and \<^verbatim>\<open>new "x"\<close>.
\<close>

theorem nonblank_target_line_is_kept_witness:
  "re_match new_pattern (str ''new \"x\"'') = Some (str ''x'') \<and> strip (str ''x'') = str ''x'' \<and>
   scan_line (test_env (Some (str ''k'')) (Data (Some [str ''b'']))) (str ''DE'') (str ''default'')
       (test_world []) \<lparr>output_lines = [], buffer_old_text = Some (str ''a'')\<rparr> (str ''new \"x\"'') =
     (test_world [], Inr \<lparr>output_lines = [] @ [str ''new \"x\"''], buffer_old_text = None\<rparr>) \<and>
   scan_lines (test_env (Some (str ''k'')) (Data (Some [str ''b'']))) (str ''DE'') (str ''default'')
       (test_world []) \<lparr>output_lines = [], buffer_old_text = None\<rparr>
       [str ''old \"a\"'', str ''new \"x\"''] =
     (test_world [], Inr \<lparr>output_lines = [str ''old \"a\"'', str ''new \"x\"''],
                          buffer_old_text = None\<rparr>) \<and>
   output_lines \<lparr>output_lines = [str ''old \"a\"'', str ''new \"x\"''], buffer_old_text = None\<rparr> !
       (length (output_lines \<lparr>output_lines = [], buffer_old_text = None\<rparr>) + 1) =
     [str ''old \"a\"'', str ''new \"x\"''] ! 1"
proof -
  let ?E = "test_env (Some (str ''k'')) (Data (Some [str ''b'']))"
  let ?lines = "[str ''old \"a\"'', str ''new \"x\"'']"
  have new: "re_match new_pattern (str ''new \"x\"'') = Some (str ''x'')"
    by (simp add: scan_eval)
  have nonblank: "strip (str ''x'') = str ''x''" "strip (str ''x'') \<noteq> []"
    by (simp_all add: scan_eval)
  have run: "scan_lines ?E (str ''DE'') (str ''default'') (test_world [])
      \<lparr>output_lines = [], buffer_old_text = None\<rparr> ?lines =
      (test_world [], Inr \<lparr>output_lines = ?lines, buffer_old_text = None\<rparr>)"
    by (simp add: scan_eval)
  have second: "(1::nat) < length ?lines" "re_match new_pattern (?lines ! 1) = Some (str ''x'')"
    using new by simp_all
  note th = nonblank_target_line_is_kept [where cur = "str ''x''" and E = ?E and lang = "str ''DE''"
      and fm = "str ''default''" and w = "test_world []"]
  from th [where line = "str ''new \"x\"''"
      and st = "\<lparr>output_lines = [], buffer_old_text = Some (str ''a'')\<rparr>"] new nonblank(2)
  have one: "scan_line ?E (str ''DE'') (str ''default'') (test_world [])
      \<lparr>output_lines = [], buffer_old_text = Some (str ''a'')\<rparr> (str ''new \"x\"'') =
      (test_world [], Inr \<lparr>output_lines = [] @ [str ''new \"x\"''], buffer_old_text = None\<rparr>)"
    by simp
  from th [where st = "\<lparr>output_lines = [], buffer_old_text = None\<rparr>" and lines = ?lines
      and w' = "test_world []" and st' = "\<lparr>output_lines = ?lines, buffer_old_text = None\<rparr>"
      and i = 1] run second nonblank(2)
  have two: "output_lines \<lparr>output_lines = ?lines, buffer_old_text = None\<rparr> !
      (length (output_lines \<lparr>output_lines = [], buffer_old_text = None\<rparr>) + 1) = ?lines ! 1"
    by blast
  from new nonblank(1) one run two show ?thesis
    by blast
qed

text \<open>
  The claim as stated fails at the payload of one space: it is not empty, and the line
  \<^verbatim>\<open>new " "\<close> after \<^verbatim>\<open>old "Hi"\<close> is rewritten (the service out of reach, so with the
  source text itself).
\<close>

theorem nonempty_target_line_counterexample:
  "re_match old_pattern (str ''old \"Hi\"'') = Some (str ''Hi'') \<and>
   re_match new_pattern (str ''new \" \"'') = Some (str '' '') \<and>
   str '' '' \<noteq> [] \<and>
   process_rpy_file (test_env (Some (str ''k'')) RequestException)
       (test_world (str ''old \"Hi\"'' @ [LF] @ str ''new \" \"'')) (str ''script.rpy'')
       (str ''DE'') (str ''default'') =
     (\<lparr>requests = [\<lparr>p_auth_key = str ''k'', p_text = str ''Hi'', p_target_lang = str ''DE'',
                      p_formality = None\<rparr>],
       files = [str ''script.rpy'' \<mapsto> str ''old \"Hi\"'' @ [LF] @ str ''new \"Hi\"'']\<rparr>, Inr ()) \<and>
   str ''new \"Hi\"'' \<noteq> str ''new \" \"''"
  by (simp add: file_eval)

section \<open>The pending source text\<close>

text \<open>
  Claim C4. In one iteration of the scan, whatever the state and the line:
  \<^item> a line that is no source declaration leaves the pending text as it was or clears it,
    and a source declaration sets it to its payload;
  \<^item> a pending text is cleared only by a target declaration;
  \<^item> a line that matches neither pattern is copied and leaves the pending text alone;
  \<^item> after a target declaration nothing is pending, filled or not;
  \<^item> the world changes only at a target declaration with a blank payload while a text
    is pending, and then by the translation call on that text.
\<close>

theorem pending_text_discipline:
  "(re_match old_pattern line = None \<longrightarrow> scan_line E lang fm w st line = (w', Inr st') \<longrightarrow>
      buffer_old_text st' = buffer_old_text st \<or> buffer_old_text st' = None) \<and>
   (re_match old_pattern line = Some t \<longrightarrow>
      scan_line E lang fm w st line =
        (w, Inr \<lparr>output_lines = output_lines st @ [line], buffer_old_text = Some t\<rparr>)) \<and>
   (scan_line E lang fm w st line = (w', Inr st') \<longrightarrow> buffer_old_text st = Some b \<longrightarrow>
      buffer_old_text st' = None \<longrightarrow> re_match new_pattern line \<noteq> None) \<and>
   (re_match old_pattern line = None \<longrightarrow> re_match new_pattern line = None \<longrightarrow>
      scan_line E lang fm w st line = (w, Inr (st\<lparr>output_lines := output_lines st @ [line]\<rparr>))) \<and>
   (re_match new_pattern line = Some cur \<longrightarrow> scan_line E lang fm w st line = (w', Inr st') \<longrightarrow>
      buffer_old_text st' = None) \<and>
   (scan_line E lang fm w st line = (w', r) \<longrightarrow> w' \<noteq> w \<longrightarrow>
      (\<exists>cur b. re_match new_pattern line = Some cur \<and> strip cur = [] \<and>
         buffer_old_text st = Some b \<and> w' = fst (translate_text E w b lang fm)))"
proof (intro conjI impI)
  assume "re_match old_pattern line = None" "scan_line E lang fm w st line = (w', Inr st')"
  then show "buffer_old_text st' = buffer_old_text st \<or> buffer_old_text st' = None"
    by (auto simp: scan_line_def split: option.splits if_splits prod.splits sum.splits)
next
  assume "re_match old_pattern line = Some t"
  then show "scan_line E lang fm w st line =
      (w, Inr \<lparr>output_lines = output_lines st @ [line], buffer_old_text = Some t\<rparr>)"
    by (rule scan_line_old)
next
  assume "scan_line E lang fm w st line = (w', Inr st')" "buffer_old_text st = Some b"
    "buffer_old_text st' = None"
  then show "re_match new_pattern line \<noteq> None"
    by (auto simp: scan_line_def split: option.splits)
next
  assume "re_match old_pattern line = None" "re_match new_pattern line = None"
  then show "scan_line E lang fm w st line = (w, Inr (st\<lparr>output_lines := output_lines st @ [line]\<rparr>))"
    by (rule scan_line_plain)
next
  assume new: "re_match new_pattern line = Some cur"
    and step: "scan_line E lang fm w st line = (w', Inr st')"
  from new have "re_match old_pattern line = None"
    by (rule new_not_old)
  with new step show "buffer_old_text st' = None"
    by (auto simp: scan_line_def split: option.splits if_splits prod.splits sum.splits)
next
  assume "scan_line E lang fm w st line = (w', r)" "w' \<noteq> w"
  then show "\<exists>cur b. re_match new_pattern line = Some cur \<and> strip cur = [] \<and>
      buffer_old_text st = Some b \<and> w' = fst (translate_text E w b lang fm)"
    by (auto simp: scan_line_def split: option.splits if_splits prod.splits sum.splits)
qed

text \<open>
  The theorem at three lines in a row, the service out of reach: a source declaration
  sets the pending text, a comment keeps it, and the target declaration that follows
  (payload \<^verbatim>\<open>x\<close>, so not filled) clears it.
\<close>

theorem pending_text_discipline_witness:
  "re_match old_pattern (str ''old \"a\"'') = Some (str ''a'') \<and>
   scan_line (test_env None RequestException) (str ''DE'') (str ''default'') (test_world [])
       \<lparr>output_lines = [], buffer_old_text = None\<rparr> (str ''old \"a\"'') =
     (test_world [], Inr \<lparr>output_lines = [str ''old \"a\"''], buffer_old_text = Some (str ''a'')\<rparr>) \<and>
   re_match old_pattern (str ''# c'') = None \<and> re_match new_pattern (str ''# c'') = None \<and>
   scan_line (test_env None RequestException) (str ''DE'') (str ''default'') (test_world [])
       \<lparr>output_lines = [], buffer_old_text = Some (str ''a'')\<rparr> (str ''# c'') =
     (test_world [], Inr \<lparr>output_lines = [str ''# c''], buffer_old_text = Some (str ''a'')\<rparr>) \<and>
   re_match new_pattern (str ''new \"x\"'') = Some (str ''x'') \<and>
   scan_line (test_env None RequestException) (str ''DE'') (str ''default'') (test_world [])
       \<lparr>output_lines = [], buffer_old_text = Some (str ''a'')\<rparr> (str ''new \"x\"'') =
     (test_world [], Inr \<lparr>output_lines = [str ''new \"x\"''], buffer_old_text = None\<rparr>)"
proof -
  let ?E = "test_env None RequestException"
  have old: "re_match old_pattern (str ''old \"a\"'') = Some (str ''a'')"
    by (simp add: scan_eval)
  have plain: "re_match old_pattern (str ''# c'') = None" "re_match new_pattern (str ''# c'') = None"
    by (simp_all add: scan_eval)
  have new: "re_match new_pattern (str ''new \"x\"'') = Some (str ''x'')"
    by (simp add: scan_eval)
  have step3: "scan_line ?E (str ''DE'') (str ''default'') (test_world [])
       \<lparr>output_lines = [], buffer_old_text = Some (str ''a'')\<rparr> (str ''new \"x\"'') =
     (test_world [], Inr \<lparr>output_lines = [str ''new \"x\"''], buffer_old_text = None\<rparr>)"
    by (simp add: scan_eval)
  note th = pending_text_discipline
  from th [of "str ''old \"a\"''" ?E "str ''DE''" "str ''default''" "test_world []"
      "\<lparr>output_lines = [], buffer_old_text = None\<rparr>" _ _ "str ''a''"] old
  have c1: "scan_line ?E (str ''DE'') (str ''default'') (test_world [])
       \<lparr>output_lines = [], buffer_old_text = None\<rparr> (str ''old \"a\"'') =
     (test_world [], Inr \<lparr>output_lines = [str ''old \"a\"''], buffer_old_text = Some (str ''a'')\<rparr>)"
    by simp
  from th [of "str ''# c''" ?E "str ''DE''" "str ''default''" "test_world []"
      "\<lparr>output_lines = [], buffer_old_text = Some (str ''a'')\<rparr>"] plain
  have c2: "scan_line ?E (str ''DE'') (str ''default'') (test_world [])
       \<lparr>output_lines = [], buffer_old_text = Some (str ''a'')\<rparr> (str ''# c'') =
     (test_world [], Inr \<lparr>output_lines = [str ''# c''], buffer_old_text = Some (str ''a'')\<rparr>)"
    by simp
  from old plain new c1 c2 step3 show ?thesis
    by simp
qed

section \<open>The credential\<close>

lemma translate_text_no_key:
  "DEEPL_API_KEY E = None \<or> DEEPL_API_KEY E = Some [] \<Longrightarrow>
   translate_text E w source_text lang fm = (w, Inl ValueError)"
  by (auto simp: translate_text_def)

lemma scan_line_no_key:
  assumes "DEEPL_API_KEY E = None \<or> DEEPL_API_KEY E = Some []"
    and "scan_line E lang fm w st line = (w', r)"
  shows "w' = w"
  using assms(2) translate_text_no_key [OF assms(1)]
  by (auto simp: scan_line_def split: option.splits if_splits)

lemma scan_lines_no_key:
  assumes "DEEPL_API_KEY E = None \<or> DEEPL_API_KEY E = Some []"
    and "scan_lines E lang fm w st lines = (w', r)"
  shows "w' = w"
  using assms(2)
proof (induction lines arbitrary: st)
  case Nil
  then show ?case by simp
next
  case (Cons line rest)
  obtain w1 r1 where step: "scan_line E lang fm w st line = (w1, r1)"
    by (cases "scan_line E lang fm w st line")
  from scan_line_no_key [OF assms(1) step] have "w1 = w" .
  with step Cons show ?case
    by (cases r1) auto
qed

text \<open>
  Claim C5. With the key unset or empty, \<^verbatim>\<open>translate_text\<close> raises \<^verbatim>\<open>ValueError\<close> and the
  world is as before: no request was sent. Processing a file with such a key sends no
  request either, whatever the file holds. And whenever \<^verbatim>\<open>translate_text\<close> does send a
  request, it is one request and it carries the key of the environment, which is not
  empty.
\<close>

theorem no_request_without_credential:
  "(DEEPL_API_KEY E = None \<or> DEEPL_API_KEY E = Some [] \<longrightarrow>
      translate_text E w source_text lang fm = (w, Inl ValueError)) \<and>
   (DEEPL_API_KEY E = None \<or> DEEPL_API_KEY E = Some [] \<longrightarrow>
      requests (fst (process_rpy_file E w rpy_path lang fm)) = requests w) \<and>
   (translate_text E w source_text lang fm = (w', r) \<longrightarrow> requests w' \<noteq> requests w \<longrightarrow>
      (\<exists>key q. DEEPL_API_KEY E = Some key \<and> key \<noteq> [] \<and>
         requests w' = requests w @ [q] \<and> p_auth_key q = key))"
proof (intro conjI impI)
  assume "DEEPL_API_KEY E = None \<or> DEEPL_API_KEY E = Some []"
  then show "translate_text E w source_text lang fm = (w, Inl ValueError)"
    by (rule translate_text_no_key)
next
  assume key: "DEEPL_API_KEY E = None \<or> DEEPL_API_KEY E = Some []"
  show "requests (fst (process_rpy_file E w rpy_path lang fm)) = requests w"
  proof (cases "files w rpy_path")
    case None
    then show ?thesis by (simp add: process_rpy_file_def)
  next
    case (Some content)
    obtain w1 r1 where scan: "scan_lines E lang fm w \<lparr>output_lines = [], buffer_old_text = None\<rparr>
        (splitlines content) = (w1, r1)"
      by (cases "scan_lines E lang fm w \<lparr>output_lines = [], buffer_old_text = None\<rparr>
        (splitlines content)")
    from scan_lines_no_key [OF key scan] have "w1 = w" .
    with Some scan show ?thesis
      by (cases r1) (simp_all add: process_rpy_file_def)
  qed
next
  assume "translate_text E w source_text lang fm = (w', r)" "requests w' \<noteq> requests w"
  then show "\<exists>key q. DEEPL_API_KEY E = Some key \<and> key \<noteq> [] \<and>
      requests w' = requests w @ [q] \<and> p_auth_key q = key"
    by (auto simp: translate_text_def Let_def split: option.splits if_splits reply.splits list.splits)
qed

text \<open>
  The theorem with no key, at the file of the lines \<^verbatim>\<open>old "a"\<close> and \<^verbatim>\<open>new ""\<close>: the call
  for \<^verbatim>\<open>a\<close> raises, so does the processing of the file, and no request is on record.
\<close>

theorem no_request_without_credential_witness:
  "DEEPL_API_KEY (test_env None (Data (Some [str ''b'']))) = None \<and>
   translate_text (test_env None (Data (Some [str ''b''])))
       (test_world (str ''old \"a\"'' @ [LF] @ str ''new \"\"'')) (str ''a'') (str ''DE'') (str ''default'') =
     (test_world (str ''old \"a\"'' @ [LF] @ str ''new \"\"''), Inl ValueError) \<and>
   requests (fst (process_rpy_file (test_env None (Data (Some [str ''b''])))
       (test_world (str ''old \"a\"'' @ [LF] @ str ''new \"\"'')) (str ''script.rpy'')
       (str ''DE'') (str ''default''))) = [] \<and>
   snd (process_rpy_file (test_env None (Data (Some [str ''b''])))
       (test_world (str ''old \"a\"'' @ [LF] @ str ''new \"\"'')) (str ''script.rpy'')
       (str ''DE'') (str ''default'')) = Inl ValueError"
proof -
  let ?E = "test_env None (Data (Some [str ''b'']))"
  let ?w = "test_world (str ''old \"a\"'' @ [LF] @ str ''new \"\"'')"
  have key: "DEEPL_API_KEY ?E = None"
    by (simp add: test_env_def)
  have raised: "snd (process_rpy_file ?E ?w (str ''script.rpy'') (str ''DE'') (str ''default'')) =
      Inl ValueError"
    by (simp add: file_eval)
  have none: "requests ?w = []"
    by (simp add: test_world_def)
  note th = no_request_without_credential [where E = ?E and w = ?w and source_text = "str ''a''"
      and lang = "str ''DE''" and fm = "str ''default''" and rpy_path = "str ''script.rpy''"
      and w' = ?w and r = "Inl ValueError"]
  from th key have call: "translate_text ?E ?w (str ''a'') (str ''DE'') (str ''default'') =
      (?w, Inl ValueError)"
    by blast
  from th key have "requests (fst (process_rpy_file ?E ?w (str ''script.rpy'') (str ''DE'')
      (str ''default''))) = requests ?w"
    by blast
  with none have sent: "requests (fst (process_rpy_file ?E ?w (str ''script.rpy'') (str ''DE'')
      (str ''default''))) = []"
    by simp
  from key call sent raised show ?thesis
    by blast
qed

section \<open>Resolving the target language\<close>

text \<open>
  Claim C6, as the code has it. The token is lower-cased first, and it is the
  lower-cased token that is looked up and, when the mapping does not hold it,
  upper-cased: the code is the mapping's value for the lower-cased token when there is
  one, and otherwise the upper case of the lower-cased token. So a token whose lower case
  is \<^verbatim>\<open>german\<close> resolves to \<^verbatim>\<open>DE\<close>, and one whose lower case is \<^verbatim>\<open>xy\<close> to the upper case
  of \<^verbatim>\<open>xy\<close>.
\<close>

theorem target_lang_resolution:
  "main_target_lang E language =
     (case LANGUAGE_MAP (str_lower E language) of
        Some code \<Rightarrow> code
      | None \<Rightarrow> str_upper E (str_lower E language)) \<and>
   (str_lower E language = str ''german'' \<longrightarrow> main_target_lang E language = str ''DE'') \<and>
   (str_lower E language = str ''xy'' \<longrightarrow> main_target_lang E language = str_upper E (str ''xy''))"
proof (intro conjI impI)
  show "main_target_lang E language =
     (case LANGUAGE_MAP (str_lower E language) of
        Some code \<Rightarrow> code
      | None \<Rightarrow> str_upper E (str_lower E language))"
    by (simp add: main_target_lang_def Let_def)
next
  assume "str_lower E language = str ''german''"
  moreover have "LANGUAGE_MAP (str ''german'') = Some (str ''DE'')"
    by (simp add: LANGUAGE_MAP_def str_def)
  ultimately show "main_target_lang E language = str ''DE''"
    by (simp add: main_target_lang_def Let_def)
next
  assume "str_lower E language = str ''xy''"
  moreover have "LANGUAGE_MAP (str ''xy'') = None"
    by (simp add: LANGUAGE_MAP_def str_def)
  ultimately show "main_target_lang E language = str_upper E (str ''xy'')"
    by (simp add: main_target_lang_def Let_def)
qed

text \<open>
  The theorem at the tokens \<^verbatim>\<open>german\<close>, \<^verbatim>\<open>German\<close> and \<^verbatim>\<open>xy\<close>, with the case mappings
  of the ASCII letters.
\<close>

theorem target_lang_resolution_witness:
  "str_lower (test_env None RequestException) (str ''german'') = str ''german'' \<and>
   main_target_lang (test_env None RequestException) (str ''german'') = str ''DE'' \<and>
   str_lower (test_env None RequestException) (str ''German'') = str ''german'' \<and>
   main_target_lang (test_env None RequestException) (str ''German'') = str ''DE'' \<and>
   str_lower (test_env None RequestException) (str ''xy'') = str ''xy'' \<and>
   str_upper (test_env None RequestException) (str ''xy'') = str ''XY'' \<and>
   main_target_lang (test_env None RequestException) (str ''xy'') = str ''XY''"
proof -
  let ?E = "test_env None RequestException"
  have l1: "str_lower ?E (str ''german'') = str ''german''"
    and l2: "str_lower ?E (str ''German'') = str ''german''"
    and l3: "str_lower ?E (str ''xy'') = str ''xy''"
    and u3: "str_upper ?E (str ''xy'') = str ''XY''"
    by (simp_all add: test_env_def str_def lower_char_def upper_char_def)
  from target_lang_resolution [of ?E "str ''german''"] l1
  have r1: "main_target_lang ?E (str ''german'') = str ''DE''"
    by blast
  from target_lang_resolution [of ?E "str ''German''"] l2
  have r2: "main_target_lang ?E (str ''German'') = str ''DE''"
    by blast
  from target_lang_resolution [of ?E "str ''xy''"] l3
  have "main_target_lang ?E (str ''xy'') = str_upper ?E (str ''xy'')"
    by blast
  with u3 have r3: "main_target_lang ?E (str ''xy'') = str ''XY''"
    by simp
  from l1 l2 l3 u3 r1 r2 r3 show ?thesis
    by blast
qed

text \<open>
  The claim as stated fails at the token that is the one character KELVIN SIGN
  (U+212A, code point 8490): its lower case is the ASCII letter \<^verbatim>\<open>k\<close>, which the mapping
  does not hold, and the code is the upper case of that, the ASCII letter \<^verbatim>\<open>K\<close> (code
  point 75); the upper-cased token is the token itself.
\<close>

theorem target_lang_counterexample:
  "str_lower (test_env None RequestException) [8490] = str ''k'' \<and>
   LANGUAGE_MAP (str ''k'') = None \<and>
   str_upper (test_env None RequestException) [8490] = [8490] \<and>
   main_target_lang (test_env None RequestException) [8490] = [75] \<and>
   main_target_lang (test_env None RequestException) [8490] \<noteq>
     str_upper (test_env None RequestException) [8490]"
  by (simp add: main_target_lang_def LANGUAGE_MAP_def str_def test_env_def lower_char_def upper_char_def Let_def)

section \<open>Files with no declaration\<close>

lemma scan_lines_unrelated:
  assumes "\<forall>l\<in>set lines. re_match old_pattern l = None \<and> re_match new_pattern l = None"
  shows "scan_lines E lang fm w st lines = (w, Inr (st\<lparr>output_lines := output_lines st @ lines\<rparr>))"
  using assms
proof (induction lines arbitrary: st)
  case Nil
  show ?case by simp
next
  case (Cons line rest)
  then have "scan_line E lang fm w st line = (w, Inr (st\<lparr>output_lines := output_lines st @ [line]\<rparr>))"
    by (simp add: scan_line_plain)
  moreover have "scan_lines E lang fm w (st\<lparr>output_lines := output_lines st @ [line]\<rparr>) rest =
      (w, Inr (st\<lparr>output_lines := output_lines st @ [line]\<rparr>
         \<lparr>output_lines := output_lines (st\<lparr>output_lines := output_lines st @ [line]\<rparr>) @ rest\<rparr>))"
    using Cons.prems by (intro Cons.IH) simp
  ultimately show ?case by simp
qed

lemma splitlines_from_nonempty: "s \<noteq> [] \<Longrightarrow> splitlines_from cur s \<noteq> []"
  by (induction cur s rule: splitlines_from.induct) auto

lemma join_lines_Cons: "ls \<noteq> [] \<Longrightarrow> join_lines (l # ls) = l @ LF # join_lines ls"
  by (cases ls) simp_all

text \<open>
  Splitting and joining gives the text back when LF is its only line boundary and it
  does not end with one.
\<close>

lemma join_splitlines_from:
  assumes "\<forall>c\<in>set s. is_linebreak c \<longrightarrow> c = LF" and "s = [] \<or> last s \<noteq> LF"
  shows "join_lines (splitlines_from cur s) = cur @ s"
  using assms
proof (induction cur s rule: splitlines_from.induct)
  case (1 cur)
  show ?case by simp
next
  case (2 cur c)
  from "2.prems"(2) have "c \<noteq> LF" by simp
  with "2.prems"(1) have "\<not> is_linebreak c" by auto
  then show ?case by simp
next
  case (3 cur c d s)
  from "3.prems"(1) have all: "\<forall>x\<in>set (d # s). is_linebreak x \<longrightarrow> x = LF"
    by simp
  from "3.prems"(2) have fin: "d # s = [] \<or> last (d # s) \<noteq> LF"
    by simp
  have "is_linebreak CR"
    by (simp add: is_linebreak_def)
  with "3.prems"(1) have notcr: "c \<noteq> CR"
    by auto
  then have n: "\<not> (c = CR \<and> d = LF)"
    by simp
  show ?case
  proof (cases "is_linebreak c")
    case True
    with "3.prems"(1) have c: "c = LF" by simp
    have "join_lines (splitlines_from [] (d # s)) = [] @ d # s"
      using n True all fin by (rule "3.IH"(2))
    moreover have "splitlines_from [] (d # s) \<noteq> []"
      by (rule splitlines_from_nonempty) simp
    ultimately have "join_lines (cur # splitlines_from [] (d # s)) = cur @ LF # d # s"
      by (simp add: join_lines_Cons)
    moreover have "splitlines_from cur (c # d # s) = cur # splitlines_from [] (d # s)"
      using n True by (simp only: splitlines_from.simps if_True if_False)
    ultimately show ?thesis
      using c by simp
  next
    case False
    have "join_lines (splitlines_from (cur @ [c]) (d # s)) = (cur @ [c]) @ d # s"
      using n False all fin by (rule "3.IH"(3))
    moreover have "splitlines_from cur (c # d # s) = splitlines_from (cur @ [c]) (d # s)"
      using n False by (simp only: splitlines_from.simps if_True if_False)
    ultimately show ?thesis
      by simp
  qed
qed

text \<open>
  A line of \<^verbatim>\<open>splitlines\<close> holds no line boundary, and the join puts LF between the
  lines; the join of the lines is never longer than the text, and shorter when the text
  ends with a line boundary.
\<close>

lemma splitlines_from_no_linebreak:
  assumes "l \<in> set (splitlines_from cur s)" and "\<forall>c\<in>set cur. \<not> is_linebreak c"
  shows "\<forall>c\<in>set l. \<not> is_linebreak c"
  using assms
proof (induction cur s arbitrary: l rule: splitlines_from.induct)
  case (1 cur)
  then show ?case
    by (cases "cur = []") simp_all
next
  case (2 cur c)
  then show ?case
    by (cases "is_linebreak c") simp_all
next
  case (3 cur c d s)
  have none: "\<forall>x\<in>set ([]::nat list). \<not> is_linebreak x"
    by simp
  show ?case
  proof (cases "c = CR \<and> d = LF")
    case True
    then have "splitlines_from cur (c # d # s) = cur # splitlines_from [] s"
      by simp
    with "3.prems"(1) have "l = cur \<or> l \<in> set (splitlines_from [] s)"
      by simp
    then show ?thesis
    proof
      assume "l = cur"
      with "3.prems"(2) show ?thesis by simp
    next
      assume "l \<in> set (splitlines_from [] s)"
      then show ?thesis
        using none by (rule "3.IH"(1) [OF True])
    qed
  next
    case False
    note n = this
    show ?thesis
    proof (cases "is_linebreak c")
      case True
      have "splitlines_from cur (c # d # s) = cur # splitlines_from [] (d # s)"
        using n True by (simp only: splitlines_from.simps if_True if_False)
      with "3.prems"(1) have "l = cur \<or> l \<in> set (splitlines_from [] (d # s))"
        by simp
      then show ?thesis
      proof
        assume "l = cur"
        with "3.prems"(2) show ?thesis by simp
      next
        assume "l \<in> set (splitlines_from [] (d # s))"
        then show ?thesis
          using none by (rule "3.IH"(2) [OF n True])
      qed
    next
      case False
      have "splitlines_from cur (c # d # s) = splitlines_from (cur @ [c]) (d # s)"
        using n False by (simp only: splitlines_from.simps if_True if_False)
      with "3.prems"(1) have "l \<in> set (splitlines_from (cur @ [c]) (d # s))"
        by simp
      moreover have "\<forall>x\<in>set (cur @ [c]). \<not> is_linebreak x"
        using "3.prems"(2) False by simp
      ultimately show ?thesis
        by (rule "3.IH"(3) [OF n False])
    qed
  qed
qed

lemma join_lines_linebreaks:
  assumes "\<forall>l\<in>set ls. \<forall>c\<in>set l. \<not> is_linebreak c"
    and "c \<in> set (join_lines ls)" and "is_linebreak c"
  shows "c = LF"
  using assms by (induction ls rule: join_lines.induct) auto

lemma length_join_lines_Cons:
  "length (join_lines (l # ls)) \<le> Suc (length l + length (join_lines ls))"
  by (cases ls) simp_all

lemma length_join_splitlines_from:
  "length (join_lines (splitlines_from cur s)) \<le> length cur + length s \<and>
   (s \<noteq> [] \<longrightarrow> is_linebreak (last s) \<longrightarrow>
      length (join_lines (splitlines_from cur s)) < length cur + length s)"
proof (induction cur s rule: splitlines_from.induct)
  case (1 cur)
  show ?case by simp
next
  case (2 cur c)
  show ?case by simp
next
  case (3 cur c d s)
  show ?case
  proof (cases "c = CR \<and> d = LF")
    case True
    then have "splitlines_from cur (c # d # s) = cur # splitlines_from [] s"
      by simp
    moreover have "length (join_lines (cur # splitlines_from [] s)) \<le>
        Suc (length cur + length (join_lines (splitlines_from [] s)))"
      by (rule length_join_lines_Cons)
    moreover have "length (join_lines (splitlines_from [] s)) \<le> length s"
      using "3.IH"(1) [OF True] by simp
    ultimately show ?thesis
      by simp
  next
    case False
    note n = this
    show ?thesis
    proof (cases "is_linebreak c")
      case True
      have eq: "splitlines_from cur (c # d # s) = cur # splitlines_from [] (d # s)"
        using n True by (simp only: splitlines_from.simps if_True if_False)
      have "splitlines_from [] (d # s) \<noteq> []"
        by (rule splitlines_from_nonempty) simp
      then have "length (join_lines (cur # splitlines_from [] (d # s))) =
          Suc (length cur + length (join_lines (splitlines_from [] (d # s))))"
        by (simp add: join_lines_Cons)
      with eq "3.IH"(2) [OF n True] show ?thesis
        by auto
    next
      case False
      have eq: "splitlines_from cur (c # d # s) = splitlines_from (cur @ [c]) (d # s)"
        using n False by (simp only: splitlines_from.simps if_True if_False)
      with "3.IH"(3) [OF n False] show ?thesis
        by auto
    qed
  qed
qed

lemma join_splitlines_iff:
  "join_lines (splitlines content) = content \<longleftrightarrow>
     (\<forall>c\<in>set content. is_linebreak c \<longrightarrow> c = LF) \<and> (content = [] \<or> last content \<noteq> LF)"
proof
  assume same: "join_lines (splitlines content) = content"
  have lines: "\<forall>l\<in>set (splitlines content). \<forall>c\<in>set l. \<not> is_linebreak c"
  proof
    fix l
    assume "l \<in> set (splitlines content)"
    then have "l \<in> set (splitlines_from [] content)"
      by (simp add: splitlines_def)
    moreover have "\<forall>c\<in>set ([]::nat list). \<not> is_linebreak c"
      by simp
    ultimately show "\<forall>c\<in>set l. \<not> is_linebreak c"
      by (rule splitlines_from_no_linebreak)
  qed
  have "\<forall>c\<in>set content. is_linebreak c \<longrightarrow> c = LF"
  proof (intro ballI impI)
    fix c
    assume "c \<in> set content" "is_linebreak c"
    with same have "c \<in> set (join_lines (splitlines content))"
      by simp
    with lines show "c = LF"
      using \<open>is_linebreak c\<close> by (rule join_lines_linebreaks)
  qed
  moreover have "content = [] \<or> last content \<noteq> LF"
  proof (rule ccontr)
    assume "\<not> (content = [] \<or> last content \<noteq> LF)"
    then have "content \<noteq> []" "is_linebreak (last content)"
      by (simp_all add: is_linebreak_def)
    with length_join_splitlines_from [of "[]" content]
    have "length (join_lines (splitlines content)) < length content"
      by (simp add: splitlines_def)
    with same show False
      by simp
  qed
  ultimately show "(\<forall>c\<in>set content. is_linebreak c \<longrightarrow> c = LF) \<and>
      (content = [] \<or> last content \<noteq> LF)"
    by simp
next
  assume "(\<forall>c\<in>set content. is_linebreak c \<longrightarrow> c = LF) \<and> (content = [] \<or> last content \<noteq> LF)"
  then have "\<forall>c\<in>set content. is_linebreak c \<longrightarrow> c = LF" and "content = [] \<or> last content \<noteq> LF"
    by blast+
  then have "join_lines (splitlines_from [] content) = [] @ content"
    by (rule join_splitlines_from)
  then show "join_lines (splitlines content) = content"
    by (simp add: splitlines_def)
qed

text \<open>
  Claim C7, as the code has it. The file is read through \<^verbatim>\<open>splitlines\<close> and written as
  \<^verbatim>\<open>"\n".join\<close> of the lines, so the line boundaries themselves are not kept. When no
  line of a file matches either pattern, \<^verbatim>\<open>process_rpy_file\<close> raises nothing, sends
  nothing, and writes to the same path the lines of the file, each as it was and in
  order, joined by LF. That text is the original one exactly when LF is the only line
  boundary in the original and the original does not end with one.
\<close>

theorem unrelated_lines_are_written_back:
  "(files w rpy_path = Some content \<longrightarrow>
    (\<forall>l\<in>set (splitlines content). re_match old_pattern l = None \<and> re_match new_pattern l = None) \<longrightarrow>
      process_rpy_file E w rpy_path lang fm =
        (w\<lparr>files := (files w)(rpy_path \<mapsto> join_lines (splitlines content))\<rparr>, Inr ())) \<and>
   (join_lines (splitlines content) = content \<longleftrightarrow>
      (\<forall>c\<in>set content. is_linebreak c \<longrightarrow> c = LF) \<and> (content = [] \<or> last content \<noteq> LF))"
proof (intro conjI impI)
  show "join_lines (splitlines content) = content \<longleftrightarrow>
      (\<forall>c\<in>set content. is_linebreak c \<longrightarrow> c = LF) \<and> (content = [] \<or> last content \<noteq> LF)"
    by (rule join_splitlines_iff)
next
  assume rd: "files w rpy_path = Some content"
    and "\<forall>l\<in>set (splitlines content). re_match old_pattern l = None \<and> re_match new_pattern l = None"
  then have "scan_lines E lang fm w \<lparr>output_lines = [], buffer_old_text = None\<rparr> (splitlines content) =
      (w, Inr (\<lparr>output_lines = [], buffer_old_text = None\<rparr>
         \<lparr>output_lines := output_lines \<lparr>output_lines = [], buffer_old_text = None\<rparr> @ splitlines content\<rparr>))"
    by (intro scan_lines_unrelated)
  with rd show "process_rpy_file E w rpy_path lang fm =
      (w\<lparr>files := (files w)(rpy_path \<mapsto> join_lines (splitlines content))\<rparr>, Inr ())"
    by (simp add: process_rpy_file_def)
qed

text \<open>
  The theorem at the text of the two lines \<^verbatim>\<open># a\<close> and \<^verbatim>\<open>b\<close> with one LF between
  them: the file is written back as it was.
\<close>

theorem unrelated_lines_are_written_back_witness:
  "files (test_world (str ''# a'' @ [LF] @ str ''b'')) (str ''script.rpy'') =
     Some (str ''# a'' @ [LF] @ str ''b'') \<and>
   splitlines (str ''# a'' @ [LF] @ str ''b'') = [str ''# a'', str ''b''] \<and>
   re_match old_pattern (str ''# a'') = None \<and> re_match new_pattern (str ''# a'') = None \<and>
   re_match old_pattern (str ''b'') = None \<and> re_match new_pattern (str ''b'') = None \<and>
   join_lines (splitlines (str ''# a'' @ [LF] @ str ''b'')) = str ''# a'' @ [LF] @ str ''b'' \<and>
   process_rpy_file (test_env None RequestException) (test_world (str ''# a'' @ [LF] @ str ''b''))
       (str ''script.rpy'') (str ''DE'') (str ''default'') =
     ((test_world (str ''# a'' @ [LF] @ str ''b''))
        \<lparr>files := (files (test_world (str ''# a'' @ [LF] @ str ''b'')))
           (str ''script.rpy'' \<mapsto> join_lines (splitlines (str ''# a'' @ [LF] @ str ''b'')))\<rparr>, Inr ())"
proof -
  let ?c = "str ''# a'' @ [LF] @ str ''b''"
  have rd: "files (test_world ?c) (str ''script.rpy'') = Some ?c"
    by (simp add: test_world_def)
  have split: "splitlines ?c = [str ''# a'', str ''b'']"
    by (simp add: file_eval)
  have m: "re_match old_pattern (str ''# a'') = None" "re_match new_pattern (str ''# a'') = None"
    "re_match old_pattern (str ''b'') = None" "re_match new_pattern (str ''b'') = None"
    by (simp_all add: file_eval)
  with split have unrelated:
    "\<forall>l\<in>set (splitlines ?c). re_match old_pattern l = None \<and> re_match new_pattern l = None"
    by simp
  have lf: "\<forall>c\<in>set ?c. is_linebreak c \<longrightarrow> c = LF" "?c = [] \<or> last ?c \<noteq> LF"
    by (simp_all add: str_def is_linebreak_def)
  note th = unrelated_lines_are_written_back [where w = "test_world ?c" and rpy_path = "str ''script.rpy''"
      and content = ?c and E = "test_env None RequestException" and lang = "str ''DE''"
      and fm = "str ''default''"]
  from th rd unrelated have run: "process_rpy_file (test_env None RequestException) (test_world ?c)
       (str ''script.rpy'') (str ''DE'') (str ''default'') =
     ((test_world ?c)\<lparr>files := (files (test_world ?c))
           (str ''script.rpy'' \<mapsto> join_lines (splitlines ?c))\<rparr>, Inr ())"
    by blast
  from th lf have same: "join_lines (splitlines ?c) = ?c"
    by blast
  from rd split m same run show ?thesis
    by blast
qed

text \<open>
  The claim as stated fails at a file that ends with a newline, as text files do: of the
  content \<^verbatim>\<open>abc\<close> LF, whose one line matches neither pattern, \<^verbatim>\<open>abc\<close> is written back.
\<close>

theorem unrelated_file_content_counterexample:
  "splitlines (str ''abc'' @ [LF]) = [str ''abc''] \<and>
   re_match old_pattern (str ''abc'') = None \<and> re_match new_pattern (str ''abc'') = None \<and>
   process_rpy_file (test_env None RequestException) (test_world (str ''abc'' @ [LF]))
       (str ''script.rpy'') (str ''DE'') (str ''default'') = (test_world (str ''abc''), Inr ()) \<and>
   files (test_world (str ''abc'')) (str ''script.rpy'') \<noteq>
     files (test_world (str ''abc'' @ [LF])) (str ''script.rpy'')"
  by (simp add: file_eval)

section \<open>Target lines that are not filled\<close>

text \<open>
  Claim C8. A target declaration reached while no source text is pending is copied as it
  is, and the world is the same afterwards: no translation is called for it, whatever its
  payload (the empty one included). In a file, that is the case of a target declaration
  with no source declaration before it: all lines up to it are copied and nothing is sent.
\<close>

theorem orphan_target_line_left_unfilled:
  "(re_match new_pattern line = Some cur \<longrightarrow> buffer_old_text st = None \<longrightarrow>
      scan_line E lang fm w st line = (w, Inr (st\<lparr>output_lines := output_lines st @ [line]\<rparr>))) \<and>
   ((\<forall>l\<in>set pre. re_match old_pattern l = None) \<longrightarrow> re_match new_pattern line = Some cur \<longrightarrow>
      scan_lines E lang fm w \<lparr>output_lines = [], buffer_old_text = None\<rparr> (pre @ [line]) =
        (w, Inr \<lparr>output_lines = pre @ [line], buffer_old_text = None\<rparr>))"
proof (intro conjI impI)
  assume "re_match new_pattern line = Some cur" "buffer_old_text st = None"
  then show "scan_line E lang fm w st line = (w, Inr (st\<lparr>output_lines := output_lines st @ [line]\<rparr>))"
    by (rule scan_line_new_no_buffer)
next
  assume pre: "\<forall>l\<in>set pre. re_match old_pattern l = None"
    and new: "re_match new_pattern line = Some cur"
  from new have "re_match old_pattern line = None"
    by (rule new_not_old)
  with pre have "\<forall>l\<in>set (pre @ [line]). re_match old_pattern l = None"
    by simp
  then have "scan_lines E lang fm w \<lparr>output_lines = [], buffer_old_text = None\<rparr> (pre @ [line]) =
      (w, Inr (\<lparr>output_lines = [], buffer_old_text = None\<rparr>
         \<lparr>output_lines := output_lines \<lparr>output_lines = [], buffer_old_text = None\<rparr> @ (pre @ [line])\<rparr>))"
    by (rule scan_lines_no_source) simp
  then show "scan_lines E lang fm w \<lparr>output_lines = [], buffer_old_text = None\<rparr> (pre @ [line]) =
      (w, Inr \<lparr>output_lines = pre @ [line], buffer_old_text = None\<rparr>)"
    by simp
qed

text \<open>
  The theorem at the file of the two lines \<^verbatim>\<open># c\<close> and \<^verbatim>\<open>new ""\<close>, with a key and a
  service that would answer \<^verbatim>\<open>b\<close>: both lines are copied and no request is sent.
\<close>

theorem orphan_target_line_left_unfilled_witness:
  "re_match old_pattern (str ''# c'') = None \<and>
   re_match new_pattern (str ''new \"\"'') = Some [] \<and>
   scan_lines (test_env (Some (str ''k'')) (Data (Some [str ''b'']))) (str ''DE'') (str ''default'')
       (test_world []) \<lparr>output_lines = [], buffer_old_text = None\<rparr> [str ''# c'', str ''new \"\"''] =
     (test_world [], Inr \<lparr>output_lines = [str ''# c'', str ''new \"\"''], buffer_old_text = None\<rparr>)"
proof -
  have pre: "re_match old_pattern (str ''# c'') = None"
    by (simp add: scan_eval)
  have new: "re_match new_pattern (str ''new \"\"'') = Some []"
    by (simp add: scan_eval)
  from pre new
    orphan_target_line_left_unfilled [where line = "str ''new \"\"''" and cur = "[]"
      and pre = "[str ''# c'']" and E = "test_env (Some (str ''k'')) (Data (Some [str ''b'']))"
      and lang = "str ''DE''" and fm = "str ''default''" and w = "test_world []"]
  show ?thesis
    by simp
qed

section \<open>A source line with no target line after it\<close>

text \<open>
  Claim C9. When no line after a source declaration is a target declaration, the lines
  after it are appended exactly as they are and the world does not change, whatever
  payload the source declaration carries: the output after the lines \<open>pre\<close>, the source
  line and the lines \<open>post\<close> is the output after \<open>pre\<close>, then the source line, then \<open>post\<close>.
\<close>

theorem source_line_without_target_has_no_effect:
  assumes "re_match old_pattern src = Some t"
    and "\<forall>l\<in>set post. re_match new_pattern l = None"
    and "scan_lines E lang fm w st pre = (w1, Inr st1)"
  shows "map_prod id (map_sum id output_lines) (scan_lines E lang fm w st (pre @ src # post)) =
           (w1, Inr (output_lines st1 @ src # post))"
proof -
  have "scan_line E lang fm w1 st1 src =
      (w1, Inr \<lparr>output_lines = output_lines st1 @ [src], buffer_old_text = Some t\<rparr>)"
    using assms(1) by (rule scan_line_old)
  moreover obtain b' where
    "scan_lines E lang fm w1 \<lparr>output_lines = output_lines st1 @ [src], buffer_old_text = Some t\<rparr> post =
       (w1, Inr \<lparr>output_lines =
          output_lines \<lparr>output_lines = output_lines st1 @ [src], buffer_old_text = Some t\<rparr> @ post,
          buffer_old_text = b'\<rparr>)"
    using scan_lines_no_target [OF assms(2)] by blast
  ultimately show ?thesis
    using assms(3) by (simp add: scan_lines_append)
qed

text \<open>
  The theorem at the lines \<^verbatim>\<open>old "a"\<close>, \<^verbatim>\<open># c\<close> and \<^verbatim>\<open>old "b"\<close>, with nothing before
  them.
\<close>

theorem source_line_without_target_has_no_effect_witness:
  "re_match old_pattern (str ''old \"a\"'') = Some (str ''a'') \<and>
   re_match new_pattern (str ''# c'') = None \<and>
   re_match new_pattern (str ''old \"b\"'') = None \<and>
   map_prod id (map_sum id output_lines)
     (scan_lines (test_env (Some (str ''k'')) (Data (Some [str ''b'']))) (str ''DE'') (str ''default'')
        (test_world []) \<lparr>output_lines = [], buffer_old_text = None\<rparr>
        ([] @ str ''old \"a\"'' # [str ''# c'', str ''old \"b\"''])) =
     (test_world [], Inr ([] @ str ''old \"a\"'' # [str ''# c'', str ''old \"b\"'']))"
proof -
  have old: "re_match old_pattern (str ''old \"a\"'') = Some (str ''a'')"
    by (simp add: scan_eval)
  have new: "re_match new_pattern (str ''# c'') = None" "re_match new_pattern (str ''old \"b\"'') = None"
    by (simp_all add: scan_eval)
  then have post: "\<forall>l\<in>set [str ''# c'', str ''old \"b\"'']. re_match new_pattern l = None"
    by simp
  have pre: "scan_lines (test_env (Some (str ''k'')) (Data (Some [str ''b'']))) (str ''DE'') (str ''default'')
        (test_world []) \<lparr>output_lines = [], buffer_old_text = None\<rparr> [] =
      (test_world [], Inr \<lparr>output_lines = [], buffer_old_text = None\<rparr>)"
    by simp
  from source_line_without_target_has_no_effect [OF old post pre] old new show ?thesis
    by simp
qed

section \<open>One output line for each input line\<close>

lemma process_rpy_file_Inr:
  assumes "files w rpy_path = Some content"
    and "process_rpy_file E w rpy_path lang fm = (w', Inr u)"
  shows "\<exists>w1 st. scan_lines E lang fm w \<lparr>output_lines = [], buffer_old_text = None\<rparr>
              (splitlines content) = (w1, Inr st) \<and>
           w' = w1\<lparr>files := (files w1)(rpy_path \<mapsto> join_lines (output_lines st))\<rparr>"
  using assms
  by (auto simp: process_rpy_file_def split: prod.splits sum.splits)

text \<open>
  Claim C10. An iteration of the scan that raises nothing appends exactly one line, and
  an iteration raises only where a target line is being filled and the translation call
  or the substitution raises. So when \<^verbatim>\<open>process_rpy_file\<close> returns, what it wrote is
  the join of a list \<open>outs\<close> that has one entry for each line of the file, in the order
  of the lines: entry \<open>i\<close> is line \<open>i\<close> itself, or line \<open>i\<close> after the substitution when
  line \<open>i\<close> is a target declaration with a blank payload. (When the call raises, nothing is written at all. An entry that
  was filled holds a line feed of its own when the replacement brings one, as in the
  example of claim C1; the count is of the entries appended.)
\<close>

theorem one_output_line_per_input_line:
  "(scan_line E lang fm w st line = (w1, Inr st1) \<longrightarrow>
      (\<exists>x. output_lines st1 = output_lines st @ [x])) \<and>
   (scan_line E lang fm w st line = (w1, Inl e) \<longrightarrow>
      (\<exists>cur b. re_match new_pattern line = Some cur \<and> strip cur = [] \<and>
         buffer_old_text st = Some b \<and>
         (snd (translate_text E w b lang fm) = Inl e \<or>
          (\<exists>tr. snd (translate_text E w b lang fm) = Inr tr \<and>
             re_sub sub_pattern (str ''new \"'' @ tr @ str ''\"'') line = Inl e)))) \<and>
   (files w rpy_path = Some content \<longrightarrow> process_rpy_file E w rpy_path lang fm = (w', Inr ()) \<longrightarrow>
      (\<exists>outs. files w' rpy_path = Some (join_lines outs) \<and>
         length outs = length (splitlines content) \<and>
         (\<forall>i<length outs.
            outs ! i = splitlines content ! i \<or>
            (\<exists>cur tr. re_match new_pattern (splitlines content ! i) = Some cur \<and> strip cur = [] \<and>
               re_sub sub_pattern (str ''new \"'' @ tr @ str ''\"'') (splitlines content ! i) =
                 Inr (outs ! i)))))"
proof (intro conjI impI)
  assume "scan_line E lang fm w st line = (w1, Inr st1)"
  from scan_line_emits [OF this] show "\<exists>x. output_lines st1 = output_lines st @ [x]"
    by blast
next
  assume "scan_line E lang fm w st line = (w1, Inl e)"
  then show "\<exists>cur b. re_match new_pattern line = Some cur \<and> strip cur = [] \<and>
      buffer_old_text st = Some b \<and>
      (snd (translate_text E w b lang fm) = Inl e \<or>
       (\<exists>tr. snd (translate_text E w b lang fm) = Inr tr \<and>
          re_sub sub_pattern (str ''new \"'' @ tr @ str ''\"'') line = Inl e))"
    by (auto simp: scan_line_def split: option.splits if_splits prod.splits sum.splits)
next
  assume rd: "files w rpy_path = Some content"
    and run: "process_rpy_file E w rpy_path lang fm = (w', Inr ())"
  from process_rpy_file_Inr [OF rd run] obtain w2 st2 where
    scan: "scan_lines E lang fm w \<lparr>output_lines = [], buffer_old_text = None\<rparr>
             (splitlines content) = (w2, Inr st2)" and
    w': "w' = w2\<lparr>files := (files w2)(rpy_path \<mapsto> join_lines (output_lines st2))\<rparr>"
    by blast
  from scan_lines_emits [OF scan] have
    all: "list_all2 (\<lambda>l x. x = l \<or>
              (\<exists>cur tr. re_match new_pattern l = Some cur \<and> strip cur = [] \<and>
                 re_sub sub_pattern (str ''new \"'' @ tr @ str ''\"'') l = Inr x))
            (splitlines content) (output_lines st2)"
    by simp
  show "\<exists>outs. files w' rpy_path = Some (join_lines outs) \<and>
         length outs = length (splitlines content) \<and>
         (\<forall>i<length outs.
            outs ! i = splitlines content ! i \<or>
            (\<exists>cur tr. re_match new_pattern (splitlines content ! i) = Some cur \<and> strip cur = [] \<and>
               re_sub sub_pattern (str ''new \"'' @ tr @ str ''\"'') (splitlines content ! i) =
                 Inr (outs ! i)))"
  proof (intro exI [of _ "output_lines st2"] conjI)
    show "files w' rpy_path = Some (join_lines (output_lines st2))"
      using w' by simp
    show "length (output_lines st2) = length (splitlines content)"
      using all by (simp add: list_all2_lengthD)
    show "\<forall>i<length (output_lines st2).
            output_lines st2 ! i = splitlines content ! i \<or>
            (\<exists>cur tr. re_match new_pattern (splitlines content ! i) = Some cur \<and> strip cur = [] \<and>
               re_sub sub_pattern (str ''new \"'' @ tr @ str ''\"'') (splitlines content ! i) =
                 Inr (output_lines st2 ! i))"
      using all by (simp add: list_all2_conv_all_nth)
  qed
qed

text \<open>
  The theorem at the file of the lines \<^verbatim>\<open>old "a"\<close> and \<^verbatim>\<open>new ""\<close>, the service
  answering \<^verbatim>\<open>b\<close>: two lines are read and two are written, the second one filled.
\<close>

theorem one_output_line_per_input_line_witness:
  "files (test_world (str ''old \"a\"'' @ [LF] @ str ''new \"\"'')) (str ''script.rpy'') =
     Some (str ''old \"a\"'' @ [LF] @ str ''new \"\"'') \<and>
   snd (process_rpy_file (test_env (Some (str ''k'')) (Data (Some [str ''b''])))
          (test_world (str ''old \"a\"'' @ [LF] @ str ''new \"\"'')) (str ''script.rpy'')
          (str ''DE'') (str ''default'')) = Inr () \<and>
   files (fst (process_rpy_file (test_env (Some (str ''k'')) (Data (Some [str ''b''])))
          (test_world (str ''old \"a\"'' @ [LF] @ str ''new \"\"'')) (str ''script.rpy'')
          (str ''DE'') (str ''default''))) (str ''script.rpy'') =
     Some (join_lines [str ''old \"a\"'', str ''new \"b\"'']) \<and>
   (\<exists>outs. files (fst (process_rpy_file (test_env (Some (str ''k'')) (Data (Some [str ''b''])))
          (test_world (str ''old \"a\"'' @ [LF] @ str ''new \"\"'')) (str ''script.rpy'')
          (str ''DE'') (str ''default''))) (str ''script.rpy'') = Some (join_lines outs) \<and>
      length outs = length (splitlines (str ''old \"a\"'' @ [LF] @ str ''new \"\"'')))"
proof -
  let ?E = "test_env (Some (str ''k'')) (Data (Some [str ''b'']))"
  let ?c = "str ''old \"a\"'' @ [LF] @ str ''new \"\"''"
  let ?run = "process_rpy_file ?E (test_world ?c) (str ''script.rpy'') (str ''DE'') (str ''default'')"
  have rd: "files (test_world ?c) (str ''script.rpy'') = Some ?c"
    by (simp add: test_world_def)
  have res: "snd ?run = Inr ()"
    by (simp add: file_eval)
  have out: "files (fst ?run) (str ''script.rpy'') =
      Some (join_lines [str ''old \"a\"'', str ''new \"b\"''])"
    by (simp add: file_eval)
  from res have run: "?run = (fst ?run, Inr ())"
    by (metis prod.collapse)
  from one_output_line_per_input_line [where w = "test_world ?c" and rpy_path = "str ''script.rpy''"
      and content = ?c and E = ?E and lang = "str ''DE''" and fm = "str ''default''"
      and w' = "fst ?run"] rd run
  have "\<exists>outs. files (fst ?run) (str ''script.rpy'') = Some (join_lines outs) \<and>
      length outs = length (splitlines ?c)"
    by blast
  with rd res out show ?thesis
    by blast
qed

end
